theory Spec2Isabelle
  imports Main "HOL-Library.AList" "HOL-Library.Multiset"
begin

section \<open>Data model of the DQBF solver\<close>

text \<open>
  The development embeds \<^verbatim>\<open>src/dqbf_solver.py\<close> (class \<^verbatim>\<open>DQBFSolver\<close>).
  Variable ids and literals are Python integers, hence \<^typ>\<open>int\<close>; a clause is a list of
  literals. A Python \<^verbatim>\<open>dict\<close> is an association list in insertion order:
  \<^const>\<open>AList.update\<close> overwrites an existing key in place and appends a new key at the
  end, which is what assignment to a dict entry does, and \<open>map snd\<close> is \<^verbatim>\<open>.values()\<close>.

  Every method works on the object \<^verbatim>\<open>self\<close>; the model passes the object explicitly and
  returns it next to the result. An exception leaves the object as it was when the exception
  was raised, so a failing call returns \<open>(Inl error, state)\<close> with exactly that state.
\<close>

datatype error =
    InvalidExistential              \<comment> \<open>ValueError: "is not an existential variable"\<close>
  | UninitializedExistential        \<comment> \<open>ValueError: "has not been initialized"\<close>
  | AssignmentOutsideDependencies   \<comment> \<open>ValueError: "variables not in dependency set"\<close>
  | KeyError                        \<comment> \<open>subscript of a dict with a missing key\<close>
  | AssertionError                  \<comment> \<open>the assert of \<^verbatim>\<open>get_counterexample\<close>\<close>
  | SystemExit                      \<comment> \<open>\<^verbatim>\<open>sys.exit(1)\<close> of \<^verbatim>\<open>solve\<close>\<close>
  | TypeError                       \<comment> \<open>unpacking \<^verbatim>\<open>None\<close>\<close>

type_synonym clause = "int list"

text \<open>
  The SAT engine (\<^verbatim>\<open>pysat.solvers.Cadical195\<close>) is an external library. A solver object
  is modelled by its clause database, and the engine by a parameter: \<open>sat_model db as\<close> is
  the answer of \<^verbatim>\<open>solve(assumptions=as)\<close> followed by \<^verbatim>\<open>get_model()\<close> on a solver holding
  \<open>db\<close> (\<open>None\<close> for UNSAT), and \<open>sat_core db as\<close> is what \<^verbatim>\<open>get_core()\<close> returns after
  that call (Python's \<^verbatim>\<open>None\<close> is \<open>None\<close>). All theorems hold for every engine.
\<close>

record sat_service =
  sat_model :: "clause list \<Rightarrow> int list \<Rightarrow> int list option"
  sat_core :: "clause list \<Rightarrow> int list \<Rightarrow> int list option"

text \<open>
  The fields of \<^verbatim>\<open>DQBFSolver.__init__\<close>. The name tables (\<^verbatim>\<open>name_to_id\<close>,
  \<^verbatim>\<open>id_to_name\<close>), the name-keyed inputs kept for statistics, and the three append-only lists
  \<^verbatim>\<open>all_rule_fire_vars\<close>, \<^verbatim>\<open>all_no_rule_fired_vars\<close>, \<^verbatim>\<open>all_value_vars\<close> are written for
  log messages only and are read by no branch and by no value that reaches a solver, so
  they are not part of the modelled state.
\<close>

record dqbf_solver =
  matrix :: "clause list"
  output_gate_id :: int
  counter :: int
  universal_var_ids :: "int list"
  existential_var_ids :: "int list"
  dependencies_by_id :: "(int \<times> int set) list"
  dependencies_by_id_list :: "(int \<times> int list) list"
  value_vars :: "(int \<times> int) list"
  no_rule_fired_vars :: "(int \<times> int) list"
  rule_fire_vars :: "(int \<times> int) list"
  permanent_assumptions :: "int list"
  expansion_vars :: "((int \<times> int list) \<times> int) list"
  expansion_vars_set :: "int set"
  expansion_variable_assignment :: "int list"
  expansion_solver :: "clause list"
  counterexample_solver :: "clause list"
  last_counterexample_existentials :: "int set option"
  last_counterexample_universals :: "int set option"

subsection \<open>Fresh-id counter\<close>

text \<open>
  Modelled from the spec: the class \<^verbatim>\<open>Counter\<close> (module \<^verbatim>\<open>counter\<close>) is not among the
  sources. The spec gives it a single operation returning watermark + 1 and incrementing.
\<close>

definition counter_increase :: "dqbf_solver \<Rightarrow> int \<times> dqbf_solver" where
  "counter_increase s = (counter s + 1, s\<lparr>counter := counter s + 1\<rparr>)"

definition cex_add_clause :: "clause \<Rightarrow> dqbf_solver \<Rightarrow> dqbf_solver" where
  "cex_add_clause c s = s\<lparr>counterexample_solver := counterexample_solver s @ [c]\<rparr>"

section \<open>Decision-list encoder\<close>

definition init_model :: "dqbf_solver \<Rightarrow> int \<Rightarrow> (error + unit) \<times> dqbf_solver" where
  "init_model s existential_var_id =
    (if existential_var_id \<notin> set (existential_var_ids s) then (Inl InvalidExistential, s)
     else if map_of (value_vars s) existential_var_id \<noteq> None then (Inr (), s)
     else
       let (value_var_1, s) = counter_increase s;
           s = s\<lparr>value_vars := AList.update existential_var_id value_var_1 (value_vars s)\<rparr>;
           (no_rule_fired_0, s) = counter_increase s;
           s = s\<lparr>no_rule_fired_vars :=
                    AList.update existential_var_id no_rule_fired_0 (no_rule_fired_vars s)\<rparr>;
           (fires_var_1, s) = counter_increase s;
           s = s\<lparr>rule_fire_vars :=
                    AList.update existential_var_id fires_var_1 (rule_fire_vars s)\<rparr>;
           s = cex_add_clause [no_rule_fired_0] s;
           s = cex_add_clause
                 [- no_rule_fired_0, - fires_var_1, - existential_var_id, value_var_1] s;
           s = cex_add_clause
                 [- no_rule_fired_0, - fires_var_1, existential_var_id, - value_var_1] s
       in (Inr (), s))"

definition set_default_value :: "dqbf_solver \<Rightarrow> int \<Rightarrow> bool \<Rightarrow> (error + unit) \<times> dqbf_solver" where
  "set_default_value s existential_var_id val =
    (case map_of (value_vars s) existential_var_id of
       None \<Rightarrow> (Inl UninitializedExistential, s)
     | Some current_value_var \<Rightarrow>
         (Inr (), s\<lparr>value_vars :=
                      AList.update existential_var_id
                        (if val then current_value_var else - current_value_var)
                        (value_vars s)\<rparr>))"

definition add_rule ::
  "dqbf_solver \<Rightarrow> int \<Rightarrow> int list \<Rightarrow> bool \<Rightarrow> int option \<Rightarrow> (error + unit) \<times> dqbf_solver" where
  "add_rule s existential_var_id premise conclusion value_var =
    (case map_of (value_vars s) existential_var_id of
       None \<Rightarrow> (Inl UninitializedExistential, s)
     | Some current_value \<Rightarrow>
    (case map_of (no_rule_fired_vars s) existential_var_id of
       None \<Rightarrow> (Inl KeyError, s)
     | Some previous_no_rule_fired \<Rightarrow>
    (case map_of (rule_fire_vars s) existential_var_id of
       None \<Rightarrow> (Inl KeyError, s)
     | Some this_rule_fired \<Rightarrow>
       let this_value_var = \<bar>current_value\<bar>;
           (next_rule_fired, s) = counter_increase s;
           (this_no_rule_fired, s) = counter_increase s;
           (next_value_var, s) = counter_increase s;
           s = s\<lparr>rule_fire_vars :=
                    AList.update existential_var_id next_rule_fired (rule_fire_vars s)\<rparr>;
           s = s\<lparr>no_rule_fired_vars :=
                    AList.update existential_var_id this_no_rule_fired (no_rule_fired_vars s)\<rparr>;
           s = s\<lparr>value_vars := AList.update existential_var_id next_value_var (value_vars s)\<rparr>;
           s = fold (\<lambda>lit. cex_add_clause [- this_rule_fired, lit]) premise s;
           s = cex_add_clause (map uminus premise @ [this_rule_fired]) s;
           s = cex_add_clause [- this_no_rule_fired, previous_no_rule_fired] s;
           s = cex_add_clause [- this_no_rule_fired, - this_rule_fired] s;
           s = cex_add_clause [this_no_rule_fired, - previous_no_rule_fired, this_rule_fired] s;
           s = cex_add_clause
                 [- next_rule_fired, - this_no_rule_fired, - existential_var_id, next_value_var] s;
           s = cex_add_clause
                 [- next_rule_fired, - this_no_rule_fired, existential_var_id, - next_value_var] s
       in (case value_var of
             None \<Rightarrow>
               (Inr (), s\<lparr>permanent_assumptions := permanent_assumptions s @
                            [if conclusion then this_value_var else - this_value_var]\<rparr>)
           | Some vv \<Rightarrow>
               (Inr (), cex_add_clause [this_value_var, - vv]
                          (cex_add_clause [- this_value_var, vv] s))))))"

section \<open>Expansion registry\<close>

text \<open>\<^verbatim>\<open>self.dependencies_by_id.get(e, [])\<close> read as a set: the dependency set \<open>D(e)\<close>.\<close>

definition dep_set_of :: "dqbf_solver \<Rightarrow> int \<Rightarrow> int set" where
  "dep_set_of s existential_var_id =
    (case map_of (dependencies_by_id s) existential_var_id of None \<Rightarrow> {} | Some d \<Rightarrow> d)"

definition get_expansion_variable ::
  "dqbf_solver \<Rightarrow> int \<Rightarrow> int list \<Rightarrow> (error + int) \<times> dqbf_solver" where
  "get_expansion_variable s existential_var_id assignment =
    (if existential_var_id \<notin> set (existential_var_ids s) then (Inl InvalidExistential, s)
     else
       let dep_set = dep_set_of s existential_var_id;
           assignment_vars = abs ` set assignment
       in if \<not> assignment_vars \<subseteq> dep_set then (Inl AssignmentOutsideDependencies, s)
          else
            let assignment_tuple = sort_key abs assignment;
                key = (existential_var_id, assignment_tuple)
            in (case map_of (expansion_vars s) key of
                  Some x \<Rightarrow> (Inr x, s)
                | None \<Rightarrow>
                    let (expansion_var_id, s) = counter_increase s;
                        s = s\<lparr>expansion_vars :=
                                 AList.update key expansion_var_id (expansion_vars s)\<rparr>
                    in (case add_rule s existential_var_id assignment True
                               (Some expansion_var_id) of
                          (Inl err, s) \<Rightarrow> (Inl err, s)
                        | (Inr _, s) \<Rightarrow>
                            (Inr expansion_var_id,
                             s\<lparr>expansion_vars_set :=
                                  insert expansion_var_id (expansion_vars_set s)\<rparr>))))"

section \<open>Construction\<close>

text \<open>
  \<^verbatim>\<open>__init__\<close>. The dicts \<^verbatim>\<open>name_to_id\<close> and \<^verbatim>\<open>dependencies\<close> arrive as their item
  lists. \<^verbatim>\<open>self.existential_vars\<close> is a Python set of strings, whose iteration order the
  language leaves open; the order in which the constructor iterates it is the argument
  \<open>existential_vars\<close>. A subscript with a missing name raises \<^verbatim>\<open>KeyError\<close> and no object is
  built.
\<close>

fun lookup_all :: "('k \<times> 'v) list \<Rightarrow> 'k list \<Rightarrow> error + 'v list" where
  "lookup_all d [] = Inr []"
| "lookup_all d (k # ks) =
    (case map_of d k of
       None \<Rightarrow> Inl KeyError
     | Some v \<Rightarrow> (case lookup_all d ks of Inl err \<Rightarrow> Inl err | Inr vs \<Rightarrow> Inr (v # vs)))"

definition initial_max_id :: "(string \<times> int) list \<Rightarrow> clause list \<Rightarrow> int" where
  "initial_max_id name_to_id mtx =
    fold (\<lambda>cl m. fold (\<lambda>lit m. max m \<bar>lit\<bar>) cl m) mtx (fold max (map snd name_to_id) 0)"

fun convert_dependencies ::
  "(string \<times> int) list \<Rightarrow> (string \<times> string list) list \<Rightarrow>
   (int \<times> int set) list \<Rightarrow> (int \<times> int list) list \<Rightarrow>
   error + (int \<times> int set) list \<times> (int \<times> int list) list" where
  "convert_dependencies name_to_id [] by_id by_id_list = Inr (by_id, by_id_list)"
| "convert_dependencies name_to_id ((exist_var, deps) # rest) by_id by_id_list =
    (case map_of name_to_id exist_var of
       None \<Rightarrow> Inl KeyError
     | Some exist_id \<Rightarrow>
         (case lookup_all name_to_id deps of
            Inl err \<Rightarrow> Inl err
          | Inr dep_ids \<Rightarrow>
              convert_dependencies name_to_id rest
                (AList.update exist_id (set dep_ids) by_id)
                (AList.update exist_id dep_ids by_id_list)))"

fun init_all :: "dqbf_solver \<Rightarrow> int list \<Rightarrow> (error + unit) \<times> dqbf_solver" where
  "init_all s [] = (Inr (), s)"
| "init_all s (exist_var_id # rest) =
    (case init_model s exist_var_id of
       (Inl err, s) \<Rightarrow> (Inl err, s)
     | (Inr _, s) \<Rightarrow> init_all s rest)"

definition dqbf_solver_init ::
  "(string \<times> int) list \<Rightarrow> (string \<times> string list) list \<Rightarrow> clause list \<Rightarrow> string list \<Rightarrow>
   int \<Rightarrow> int option \<Rightarrow> string list \<Rightarrow> error + dqbf_solver" where
  "dqbf_solver_init name_to_id dependencies mtx universal_vars gate cnt existential_vars =
    (let c = (case cnt of None \<Rightarrow> initial_max_id name_to_id mtx | Some c \<Rightarrow> c)
     in case lookup_all name_to_id universal_vars of
          Inl err \<Rightarrow> Inl err
        | Inr univ_ids \<Rightarrow>
     (case lookup_all name_to_id existential_vars of
          Inl err \<Rightarrow> Inl err
        | Inr exist_ids \<Rightarrow>
     (case convert_dependencies name_to_id dependencies [] [] of
          Inl err \<Rightarrow> Inl err
        | Inr (by_id, by_id_list) \<Rightarrow>
     (case init_all
             \<lparr>matrix = mtx, output_gate_id = gate, counter = c,
              universal_var_ids = univ_ids, existential_var_ids = exist_ids,
              dependencies_by_id = by_id, dependencies_by_id_list = by_id_list,
              value_vars = [], no_rule_fired_vars = [], rule_fire_vars = [],
              permanent_assumptions = [], expansion_vars = [], expansion_vars_set = {},
              expansion_variable_assignment = [], expansion_solver = [],
              counterexample_solver = mtx,
              last_counterexample_existentials = None,
              last_counterexample_universals = None\<rparr>
             exist_ids of
          (Inl err, _) \<Rightarrow> Inl err
        | (Inr _, s) \<Rightarrow> Inr s))))"

section \<open>Counterexample engine\<close>

definition get_counterexample ::
  "sat_service \<Rightarrow> dqbf_solver \<Rightarrow>
   (error + bool \<times> (int list \<times> int list) option) \<times> dqbf_solver" where
  "get_counterexample sat s =
    (let negated_output = - output_gate_id s;
         assumptions_step1 = [negated_output] @ permanent_assumptions s @
           map snd (rule_fire_vars s) @ map snd (value_vars s) @
           expansion_variable_assignment s
     in case sat_model sat (counterexample_solver s) assumptions_step1 of
          None \<Rightarrow> (Inr (False, None), s)
        | Some model \<Rightarrow>
            let counterexample_universals =
                  filter (\<lambda>lit. \<bar>lit\<bar> \<in> set (universal_var_ids s)) model;
                counterexample_existentials =
                  filter (\<lambda>lit. \<bar>lit\<bar> \<in> set (existential_var_ids s)) model;
                unnegated_output = output_gate_id s;
                assumptions =
                  counterexample_universals @ counterexample_existentials @ [unnegated_output]
            in (case sat_model sat (counterexample_solver s) assumptions of
                  Some _ \<Rightarrow> (Inl AssertionError, s)
                | None \<Rightarrow>
                    let core = (case sat_core sat (counterexample_solver s) assumptions of
                                  None \<Rightarrow> [] | Some c \<Rightarrow> c);
                        existential_core =
                          filter (\<lambda>lit. \<bar>lit\<bar> \<in> set (existential_var_ids s)) core
                    in (Inr (True, Some (existential_core, counterexample_universals)), s)))"

section \<open>Refinement engine\<close>



section \<open>Model functions (debug output of the driver)\<close>




section \<open>CEGAR driver\<close>




section \<open>Equivalence detector\<close>

subsection \<open>The local class \<^verbatim>\<open>UnionFind\<close>\<close>

record union_find =
  uf_parent :: "(int \<times> int) list"
  uf_rank :: "(int \<times> nat) list"

definition uf_init :: "int list \<Rightarrow> union_find" where
  "uf_init elements =
    \<lparr>uf_parent = fold (\<lambda>elem d. AList.update elem elem d) elements [],
     uf_rank = fold (\<lambda>elem d. AList.update elem 0 d) elements []\<rparr>"

text \<open>
  \<^verbatim>\<open>find\<close> recurses along the parent pointers and need not return on a cyclic dict, so it
  is a partial function: \<open>None\<close> is "does not return". Python's recursion limit is not
  modelled.
\<close>

partial_function (option) uf_find ::
  "union_find \<Rightarrow> int \<Rightarrow> ((error + int) \<times> union_find) option" where
  "uf_find u x =
    (case map_of (uf_parent u) x of
       None \<Rightarrow> Some (Inl KeyError, u)
     | Some p \<Rightarrow>
         if p \<noteq> x then
           Option.bind (uf_find u p) (\<lambda>(r, u).
             case r of
               Inl err \<Rightarrow> Some (Inl err, u)
             | Inr root \<Rightarrow>
                 let u = u\<lparr>uf_parent := AList.update x root (uf_parent u)\<rparr>
                 in (case map_of (uf_parent u) x of
                       None \<Rightarrow> Some (Inl KeyError, u)
                     | Some q \<Rightarrow> Some (Inr q, u)))
         else Some (Inr p, u))"

declare uf_find.simps [code]

definition uf_union :: "union_find \<Rightarrow> int \<Rightarrow> int \<Rightarrow> ((error + unit) \<times> union_find) option" where
  "uf_union u x y =
    (case uf_find u x of
       None \<Rightarrow> None
     | Some (Inl err, u) \<Rightarrow> Some (Inl err, u)
     | Some (Inr root_x, u) \<Rightarrow>
    (case uf_find u y of
       None \<Rightarrow> None
     | Some (Inl err, u) \<Rightarrow> Some (Inl err, u)
     | Some (Inr root_y, u) \<Rightarrow>
         if root_x = root_y then Some (Inr (), u)
         else
           (case map_of (uf_rank u) root_x of
              None \<Rightarrow> Some (Inl KeyError, u)
            | Some rank_x \<Rightarrow>
           (case map_of (uf_rank u) root_y of
              None \<Rightarrow> Some (Inl KeyError, u)
            | Some rank_y \<Rightarrow>
                if rank_x < rank_y then
                  Some (Inr (), u\<lparr>uf_parent := AList.update root_x root_y (uf_parent u)\<rparr>)
                else if rank_x > rank_y then
                  Some (Inr (), u\<lparr>uf_parent := AList.update root_y root_x (uf_parent u)\<rparr>)
                else
                  Some (Inr (), u\<lparr>uf_parent := AList.update root_y root_x (uf_parent u),
                                  uf_rank := AList.update root_x (rank_x + 1) (uf_rank u)\<rparr>)))))"

definition uf_same_set ::
  "union_find \<Rightarrow> int \<Rightarrow> int \<Rightarrow> ((error + bool) \<times> union_find) option" where
  "uf_same_set u x y =
    (case uf_find u x of
       None \<Rightarrow> None
     | Some (Inl err, u) \<Rightarrow> Some (Inl err, u)
     | Some (Inr root_x, u) \<Rightarrow>
    (case uf_find u y of
       None \<Rightarrow> None
     | Some (Inl err, u) \<Rightarrow> Some (Inl err, u)
     | Some (Inr root_y, u) \<Rightarrow> Some (Inr (root_x = root_y), u)))"

text \<open>
  \<^verbatim>\<open>get_classes\<close> iterates over the keys of \<^verbatim>\<open>parent\<close>; \<^verbatim>\<open>find\<close> only overwrites values of
  existing keys, so the keys and their order are those at the start of the loop.
\<close>

fun uf_classes_loop ::
  "union_find \<Rightarrow> int list \<Rightarrow> (int \<times> int list) list \<Rightarrow>
   ((error + (int \<times> int list) list) \<times> union_find) option" where
  "uf_classes_loop u [] classes = Some (Inr classes, u)"
| "uf_classes_loop u (elem # rest) classes =
    (case uf_find u elem of
       None \<Rightarrow> None
     | Some (Inl err, u) \<Rightarrow> Some (Inl err, u)
     | Some (Inr root, u) \<Rightarrow>
         let classes = (if map_of classes root = None then AList.update root [] classes
                        else classes);
             members = (case map_of classes root of None \<Rightarrow> [] | Some ms \<Rightarrow> ms)
         in uf_classes_loop u rest (AList.update root (members @ [elem]) classes))"

definition uf_get_classes ::
  "union_find \<Rightarrow> ((error + (int \<times> int list) list) \<times> union_find) option" where
  "uf_get_classes u = uf_classes_loop u (map fst (uf_parent u)) []"

subsection \<open>\<^verbatim>\<open>detect_equivalent_existentials\<close>\<close>

definition dep_list_of :: "dqbf_solver \<Rightarrow> int \<Rightarrow> int list" where
  "dep_list_of s exist_id =
    (case map_of (dependencies_by_id_list s) exist_id of None \<Rightarrow> [] | Some ds \<Rightarrow> ds)"

definition by_dep_count :: "dqbf_solver \<Rightarrow> (nat \<times> int list) list" where
  "by_dep_count s =
    fold (\<lambda>exist_id d.
            let dep_count = length (dep_list_of s exist_id);
                d = (if map_of d dep_count = None then AList.update dep_count [] d else d);
                grp = (case map_of d dep_count of None \<Rightarrow> [] | Some g \<Rightarrow> g)
            in AList.update dep_count (grp @ [exist_id]) d)
         (existential_var_ids s) []"

text \<open>The clauses added for one pair under the activation literal \<open>a\<close>.\<close>

definition pair_clauses :: "int \<Rightarrow> int \<Rightarrow> int \<Rightarrow> int list \<Rightarrow> int list \<Rightarrow> clause list" where
  "pair_clauses a var1_id var2_id deps1 deps2 =
    concat (map (\<lambda>(dep_var1, dep_var2).
                   [[- a, dep_var1, - dep_var2], [- a, - dep_var1, dep_var2]])
                (zip deps1 deps2)) @
    [[- a, var1_id, var2_id], [- a, - var1_id, - var2_id]]"

text \<open>
  The body of the innermost loop. The loops work on the object (of which only the counter
  is written), the union-find structure and the clause database of the local
  \<^verbatim>\<open>detection_solver\<close>.
\<close>

type_synonym detect_state = "dqbf_solver \<times> union_find \<times> clause list"

definition check_pair ::
  "sat_service \<Rightarrow> detect_state \<Rightarrow> int \<Rightarrow> int \<Rightarrow> ((error + unit) \<times> detect_state) option" where
  "check_pair sat st var1_id var2_id =
    (case st of (s, uf, db) \<Rightarrow>
     (case uf_same_set uf var1_id var2_id of
        None \<Rightarrow> None
      | Some (Inl err, uf) \<Rightarrow> Some (Inl err, (s, uf, db))
      | Some (Inr True, uf) \<Rightarrow> Some (Inr (), (s, uf, db))
      | Some (Inr False, uf) \<Rightarrow>
          let deps1 = dep_list_of s var1_id;
              deps2 = dep_list_of s var2_id;
              (assumption_variable, s) = counter_increase s;
              db = db @ pair_clauses assumption_variable var1_id var2_id deps1 deps2
          in (case sat_model sat db [assumption_variable, output_gate_id s] of
                Some _ \<Rightarrow> Some (Inr (), (s, uf, db))
              | None \<Rightarrow>
                  (case uf_union uf var1_id var2_id of
                     None \<Rightarrow> None
                   | Some (Inl err, uf) \<Rightarrow> Some (Inl err, (s, uf, db))
                   | Some (Inr _, uf) \<Rightarrow> Some (Inr (), (s, uf, db))))))"

fun pairs_inner ::
  "sat_service \<Rightarrow> int \<Rightarrow> int list \<Rightarrow> detect_state \<Rightarrow> ((error + unit) \<times> detect_state) option" where
  "pairs_inner sat var1_id [] st = Some (Inr (), st)"
| "pairs_inner sat var1_id (var2_id # rest) st =
    (case check_pair sat st var1_id var2_id of
       None \<Rightarrow> None
     | Some (Inl err, st) \<Rightarrow> Some (Inl err, st)
     | Some (Inr _, st) \<Rightarrow> pairs_inner sat var1_id rest st)"

fun pairs_outer ::
  "sat_service \<Rightarrow> int list \<Rightarrow> detect_state \<Rightarrow> ((error + unit) \<times> detect_state) option" where
  "pairs_outer sat [] st = Some (Inr (), st)"
| "pairs_outer sat (var1_id # rest) st =
    (case pairs_inner sat var1_id rest st of
       None \<Rightarrow> None
     | Some (Inl err, st) \<Rightarrow> Some (Inl err, st)
     | Some (Inr _, st) \<Rightarrow> pairs_outer sat rest st)"

fun groups_loop ::
  "sat_service \<Rightarrow> (nat \<times> int list) list \<Rightarrow> detect_state \<Rightarrow>
   ((error + unit) \<times> detect_state) option" where
  "groups_loop sat [] st = Some (Inr (), st)"
| "groups_loop sat ((dep_count, grp) # rest) st =
    (case pairs_outer sat grp st of
       None \<Rightarrow> None
     | Some (Inl err, st) \<Rightarrow> Some (Inl err, st)
     | Some (Inr _, st) \<Rightarrow> groups_loop sat rest st)"

definition detect_equivalent_existentials ::
  "sat_service \<Rightarrow> dqbf_solver \<Rightarrow> ((error + (int \<times> int list) list) \<times> dqbf_solver) option" where
  "detect_equivalent_existentials sat s =
    (let detection_solver = matrix s;
         uf = uf_init (existential_var_ids s)
     in case groups_loop sat (sort_key fst (by_dep_count s)) (s, uf, detection_solver) of
          None \<Rightarrow> None
        | Some (Inl err, (s, uf, db)) \<Rightarrow> Some (Inl err, s)
        | Some (Inr _, (s, uf, db)) \<Rightarrow>
            (case uf_get_classes uf of
               None \<Rightarrow> None
             | Some (Inl err, uf) \<Rightarrow> Some (Inl err, s)
             | Some (Inr equivalence_classes, uf) \<Rightarrow> Some (Inr equivalence_classes, s)))"

text \<open>
  The pairs the loops visit, in order: within each group of \<open>by_dep_count\<close>, taken in
  increasing order of the dependency count, every pair of positions \<open>i < j\<close>.
\<close>

fun pairs_of :: "int list \<Rightarrow> (int \<times> int) list" where
  "pairs_of [] = []"
| "pairs_of (v # vs) = map (Pair v) vs @ pairs_of vs"

definition candidate_pairs :: "dqbf_solver \<Rightarrow> (int \<times> int) list" where
  "candidate_pairs s = concat (map (\<lambda>(dep_count, grp). pairs_of grp) (sort_key fst (by_dep_count s)))"

fun check_pairs ::
  "sat_service \<Rightarrow> (int \<times> int) list \<Rightarrow> detect_state \<Rightarrow> ((error + unit) \<times> detect_state) option" where
  "check_pairs sat [] st = Some (Inr (), st)"
| "check_pairs sat ((var1_id, var2_id) # rest) st =
    (case check_pair sat st var1_id var2_id of
       None \<Rightarrow> None
     | Some (Inl err, st) \<Rightarrow> Some (Inl err, st)
     | Some (Inr _, st) \<Rightarrow> check_pairs sat rest st)"

text \<open>
  The representative of an element in a parent map: follow the parent pointers up to an
  element that is its own parent. Two elements are in one class when they have the same
  representative.
\<close>

inductive uf_root :: "(int \<Rightarrow> int option) \<Rightarrow> int \<Rightarrow> int \<Rightarrow> bool"
  for pm :: "int \<Rightarrow> int option" where
  root_self: "pm x = Some x \<Longrightarrow> uf_root pm x x"
| root_step: "pm x = Some p \<Longrightarrow> p \<noteq> x \<Longrightarrow> uf_root pm p r \<Longrightarrow> uf_root pm x r"

code_pred uf_root .

definition same_class :: "union_find \<Rightarrow> int \<Rightarrow> int \<Rightarrow> bool" where
  "same_class u x y =
    (\<exists>r. uf_root (map_of (uf_parent u)) x r \<and> uf_root (map_of (uf_parent u)) y r)"

definition uf_ok :: "union_find \<Rightarrow> bool" where
  "uf_ok u =
    (list_all (\<lambda>x. \<exists>r. uf_root (map_of (uf_parent u)) x r \<and> map_of (uf_rank u) r \<noteq> None)
       (map fst (uf_parent u)))"

section \<open>Invariants and auxiliary notions\<close>

text \<open>An existential has a decision list when all three handle dicts have an entry for it.\<close>

definition has_model :: "dqbf_solver \<Rightarrow> int \<Rightarrow> bool" where
  "has_model s e =
    (map_of (value_vars s) e \<noteq> None \<and> map_of (no_rule_fired_vars s) e \<noteq> None \<and>
     map_of (rule_fire_vars s) e \<noteq> None)"

definition initialized :: "dqbf_solver \<Rightarrow> bool" where
  "initialized s = list_all (has_model s) (existential_var_ids s)"

definition maps_aligned :: "dqbf_solver \<Rightarrow> bool" where
  "maps_aligned s = list_all (has_model s) (map fst (value_vars s))"

text \<open>The keys of the three handle dicts are exactly the existential ids.\<close>

definition handles_exact :: "dqbf_solver \<Rightarrow> bool" where
  "handles_exact s =
    (set (map fst (value_vars s)) = set (existential_var_ids s) \<and>
     set (map fst (no_rule_fired_vars s)) = set (existential_var_ids s) \<and>
     set (map fst (rule_fire_vars s)) = set (existential_var_ids s))"

text \<open>
  The clauses that \<^verbatim>\<open>add_rule\<close> adds before it treats the conclusion, for counter value
  \<open>c\<close> at entry, in the order of the calls to \<^verbatim>\<open>add_clause\<close>.
\<close>

definition add_rule_clauses :: "int \<Rightarrow> int \<Rightarrow> int \<Rightarrow> int \<Rightarrow> int list \<Rightarrow> clause list" where
  "add_rule_clauses e c prev_nofired this_fired premise =
     map (\<lambda>lit. [- this_fired, lit]) premise @
     [map uminus premise @ [this_fired],
      [- (c + 2), prev_nofired], [- (c + 2), - this_fired], [c + 2, - prev_nofired, this_fired],
      [- (c + 1), - (c + 2), - e, c + 3], [- (c + 1), - (c + 2), e, - (c + 3)]]"






section \<open>A reference SAT engine\<close>

text \<open>
  To run the model on concrete inputs: a backtracking search over the variables \<open>1..n\<close>,
  \<open>n\<close> the largest variable of the database and the assumptions, that tries \<open>False\<close> before
  \<open>True\<close>, gives up a branch as soon as a clause has all its literals false, and returns
  the first total assignment that satisfies every clause and every assumption. After UNSAT
  it reports all assumptions as the core.
\<close>

definition falsified :: "int list \<Rightarrow> clause \<Rightarrow> bool" where
  "falsified m c = list_all (\<lambda>l. - l \<in> set m) c"

definition satisfies :: "int list \<Rightarrow> clause list \<Rightarrow> bool" where
  "satisfies m db = list_all (\<lambda>c. list_ex (\<lambda>l. l \<in> set m) c) db"

fun search :: "clause list \<Rightarrow> int list \<Rightarrow> int list \<Rightarrow> int list option" where
  "search db [] m = (if satisfies m db then Some m else None)"
| "search db (v # vs) m =
    (if list_ex (falsified m) db then None
     else (case search db vs (m @ [- v]) of
             Some r \<Rightarrow> Some r
           | None \<Rightarrow> search db vs (m @ [v])))"

definition max_var :: "clause list \<Rightarrow> int list \<Rightarrow> int" where
  "max_var db asms = fold (\<lambda>l m. max m \<bar>l\<bar>) (concat db @ asms) 0"

definition ref_model :: "clause list \<Rightarrow> int list \<Rightarrow> int list option" where
  "ref_model db asms = search (db @ map (\<lambda>a. [a]) asms) [1..max_var db asms] []"

definition ref_sat :: sat_service where
  "ref_sat = \<lparr>sat_model = ref_model,
              sat_core = (\<lambda>db asms. if ref_model db asms = None then Some asms else None)\<rparr>"

section \<open>Hypotheses on the SAT engine and on the matrix\<close>

text \<open>
  The engine is external. Where a property needs more than that it is a function, it is
  stated under hypotheses on its answers: a reported model is a list of literals that
  contains no literal together with its negation, a literal of every clause of the
  database, and every assumption (\<open>sound_engine\<close>, for one database).

  \<open>gate_determined\<close>: the clause database of the counterexample solver determines the
  output gate from the quantified variables: two models, of which the second contains
  every literal of the first over a universal or existential id, never give the output
  gate opposite values. A matrix that defines the gate (and every auxiliary variable) from
  the quantified variables, as a Tseitin encoding does, has this property; the clauses of
  the decision lists do not mention the gate.
\<close>

definition consistent :: "int list \<Rightarrow> bool" where
  "consistent m = list_all (\<lambda>l. - l \<notin> set m) m"

definition is_model :: "int list \<Rightarrow> clause list \<Rightarrow> int list \<Rightarrow> bool" where
  "is_model m db asms = (consistent m \<and> satisfies m db \<and> list_all (\<lambda>a. a \<in> set m) asms)"

definition sound_engine :: "sat_service \<Rightarrow> clause list \<Rightarrow> bool" where
  "sound_engine sat db = (\<forall>asms m. sat_model sat db asms = Some m \<longrightarrow> is_model m db asms)"

definition gate_determined :: "dqbf_solver \<Rightarrow> bool" where
  "gate_determined s =
    (\<forall>m1 m2. is_model m1 (counterexample_solver s) [] \<and>
             is_model m2 (counterexample_solver s) [] \<and>
             list_all (\<lambda>l. \<bar>l\<bar> \<in> set (universal_var_ids s) \<union> set (existential_var_ids s) \<longrightarrow>
                            l \<in> set m2) m1 \<longrightarrow>
             \<not> (- output_gate_id s \<in> set m1 \<and> output_gate_id s \<in> set m2) \<and>
             \<not> (output_gate_id s \<in> set m1 \<and> - output_gate_id s \<in> set m2))"

section \<open>Concrete inputs\<close>

text \<open>
  The formula \<open>\<forall>u \<exists>e(u). u \<leftrightarrow> e\<close> with \<open>u = 1\<close>, \<open>e = 2\<close> and output gate \<open>g = 3\<close>;
  the matrix is the Tseitin encoding of \<open>g \<leftrightarrow> (u \<leftrightarrow> e)\<close>.
\<close>

definition ex_init :: "error + dqbf_solver" where
  "ex_init = dqbf_solver_init [(''u'', 1), (''e'', 2), (''g'', 3)] [(''e'', [''u''])]
     [[-3, -1, 2], [-3, 1, -2], [3, 1, 2], [3, -1, -2]] [''u''] 3 None [''e'']"

definition ex_state :: dqbf_solver where
  "ex_state =
     \<lparr>matrix = [[-3, -1, 2], [-3, 1, -2], [3, 1, 2], [3, -1, -2]],
      output_gate_id = 3, counter = 6, universal_var_ids = [1],
      existential_var_ids = [2], dependencies_by_id = [(2, {1})],
      dependencies_by_id_list = [(2, [1])], value_vars = [(2, 4)],
      no_rule_fired_vars = [(2, 5)], rule_fire_vars = [(2, 6)],
      permanent_assumptions = [], expansion_vars = [],
      expansion_vars_set = {}, expansion_variable_assignment = [],
      expansion_solver = [],
      counterexample_solver =
        [[-3, -1, 2], [-3, 1, -2], [3, 1, 2], [3, -1, -2], [5],
         [-5, -6, -2, 4], [-5, -6, 2, -4]],
      last_counterexample_existentials = None,
      last_counterexample_universals = None\<rparr>"

text \<open>
  Two universals \<open>1\<close>, \<open>2\<close>, one existential \<open>3\<close> depending on both, output gate \<open>4\<close>
  with matrix \<open>g \<leftrightarrow> e\<close>.
\<close>

definition ex2_state :: dqbf_solver where
  "ex2_state =
     \<lparr>matrix = [[-4, 3], [4, -3]],
      output_gate_id = 4, counter = 7, universal_var_ids = [1, 2],
      existential_var_ids = [3], dependencies_by_id = [(3, {1, 2})],
      dependencies_by_id_list = [(3, [1, 2])], value_vars = [(3, 5)],
      no_rule_fired_vars = [(3, 6)], rule_fire_vars = [(3, 7)],
      permanent_assumptions = [], expansion_vars = [],
      expansion_vars_set = {}, expansion_variable_assignment = [],
      expansion_solver = [],
      counterexample_solver = [[-4, 3], [4, -3], [6], [-6, -7, -3, 5], [-6, -7, 3, -5]],
      last_counterexample_existentials = None,
      last_counterexample_universals = None\<rparr>"

text \<open>
  No quantified variable at all: a free variable \<open>1\<close> and the output gate \<open>2\<close> with matrix
  \<open>g \<leftrightarrow> x\<close>.
\<close>

definition ex3_state :: dqbf_solver where
  "ex3_state =
     \<lparr>matrix = [[-2, 1], [2, -1]],
      output_gate_id = 2, counter = 2, universal_var_ids = [],
      existential_var_ids = [], dependencies_by_id = [],
      dependencies_by_id_list = [], value_vars = [],
      no_rule_fired_vars = [], rule_fire_vars = [],
      permanent_assumptions = [], expansion_vars = [],
      expansion_vars_set = {}, expansion_variable_assignment = [],
      expansion_solver = [],
      counterexample_solver = [[-2, 1], [2, -1]],
      last_counterexample_existentials = None,
      last_counterexample_universals = None\<rparr>"

text \<open>No quantified variable and a contradictory matrix \<open>x \<and> \<not>x\<close>; output gate \<open>2\<close>.\<close>

definition ex4_state :: dqbf_solver where
  "ex4_state =
     \<lparr>matrix = [[1], [-1]],
      output_gate_id = 2, counter = 2, universal_var_ids = [],
      existential_var_ids = [], dependencies_by_id = [],
      dependencies_by_id_list = [], value_vars = [],
      no_rule_fired_vars = [], rule_fire_vars = [],
      permanent_assumptions = [], expansion_vars = [],
      expansion_vars_set = {}, expansion_variable_assignment = [],
      expansion_solver = [],
      counterexample_solver = [[1], [-1]],
      last_counterexample_existentials = None,
      last_counterexample_universals = None\<rparr>"


text \<open>
  Three existentials: \<open>e1 = 2\<close> and \<open>e2 = 3\<close> depend on the universal \<open>u = 1\<close>, \<open>e3 = 4\<close>
  depends on nothing; the output gate \<open>g = 5\<close> implies \<open>e1 \<leftrightarrow> e2\<close>.
\<close>

definition ex5_state :: dqbf_solver where
  "ex5_state =
     \<lparr>matrix = [[-5, -2, 3], [-5, 2, -3]],
      output_gate_id = 5, counter = 14, universal_var_ids = [1],
      existential_var_ids = [2, 3, 4],
      dependencies_by_id = [(2, {1}), (3, {1}), (4, {})],
      dependencies_by_id_list = [(2, [1]), (3, [1]), (4, [])],
      value_vars = [(2, 6), (3, 9), (4, 12)],
      no_rule_fired_vars = [(2, 7), (3, 10), (4, 13)],
      rule_fire_vars = [(2, 8), (3, 11), (4, 14)],
      permanent_assumptions = [], expansion_vars = [],
      expansion_vars_set = {}, expansion_variable_assignment = [],
      expansion_solver = [],
      counterexample_solver =
        [[-5, -2, 3], [-5, 2, -3], [7], [-7, -8, -2, 6], [-7, -8, 2, -6],
         [10], [-10, -11, -3, 9], [-10, -11, 3, -9],
         [13], [-13, -14, -4, 12], [-13, -14, 4, -12]],
      last_counterexample_existentials = None,
      last_counterexample_universals = None\<rparr>"

section \<open>Properties\<close>

subsection \<open>The running example\<close>

lemma ex_init_state: "ex_init = Inr ex_state"
  by (simp add: ex_init_def ex_state_def dqbf_solver_init_def initial_max_id_def
      init_model_def counter_increase_def cex_add_clause_def)

lemma ex2_init_state:
  "dqbf_solver_init [(''u1'', 1), (''u2'', 2), (''e'', 3), (''g'', 4)] [(''e'', [''u1'', ''u2''])]
     [[-4, 3], [4, -3]] [''u1'', ''u2''] 4 None [''e''] = Inr ex2_state"
  by (simp add: ex2_state_def dqbf_solver_init_def initial_max_id_def
      init_model_def counter_increase_def cex_add_clause_def)

lemma ex3_init_state:
  "dqbf_solver_init [(''x'', 1), (''g'', 2)] [] [[-2, 1], [2, -1]] [] 2 None [] = Inr ex3_state"
  by (simp add: ex3_state_def dqbf_solver_init_def initial_max_id_def)

lemma ex4_init_state:
  "dqbf_solver_init [(''x'', 1), (''g'', 2)] [] [[1], [-1]] [] 2 None [] = Inr ex4_state"
  by (simp add: ex4_state_def dqbf_solver_init_def initial_max_id_def)

subsection \<open>Default value of a decision list\<close>


lemma set_default_value_magnitude:
  "map_of (value_vars s) e = Some v \<Longrightarrow>
   map_of (value_vars (snd (set_default_value s e b))) e = Some (if b then v else - v)"
  by (simp add: set_default_value_def update_conv')

text \<open>
  C1. \<^verbatim>\<open>set_default_value\<close> keeps the magnitude of the stored value literal, but negates
  the literal it finds rather than choosing a sign: on the constructed example, where the
  value literal of existential 2 is 4, a first call with \<^verbatim>\<open>False\<close> stores \<open>-4\<close>; a second
  call with \<^verbatim>\<open>False\<close> stores \<open>4\<close>, and a call with \<^verbatim>\<open>True\<close> after the first leaves \<open>-4\<close>.
  So after a call the sign is not determined by the argument alone.
\<close>

theorem set_default_value_sign_follows_previous:
  "map_of (value_vars (snd (set_default_value ex_state 2 False))) 2 = Some (- 4) \<and>
   set_default_value (snd (set_default_value ex_state 2 False)) 2 False =
     (Inr (), ex_state) \<and>
   map_of (value_vars ex_state) 2 = Some 4 \<and>
   map_of (value_vars
     (snd (set_default_value (snd (set_default_value ex_state 2 False)) 2 True))) 2
     = Some (- 4)"
  by (simp add: set_default_value_def ex_state_def)

subsection \<open>Expansion registry: rejected assignments\<close>

text \<open>
  C8. If the assignment list contains a literal whose variable is not in \<open>D(e)\<close>, then
  \<^verbatim>\<open>get_expansion_variable\<close> fails and returns the object unchanged: the counter, the
  registry, the set of expansion ids and both clause databases are those of before the
  call. For an existential \<open>e\<close> the error is the one for an assignment outside the
  dependencies.
\<close>

theorem get_expansion_variable_outside_dependencies:
  assumes "\<exists>l\<in>set a. \<bar>l\<bar> \<notin> dep_set_of s e"
  shows "\<exists>err. get_expansion_variable s e a = (Inl err, s) \<and>
           (e \<in> set (existential_var_ids s) \<longrightarrow> err = AssignmentOutsideDependencies)"
  using assms by (auto simp: get_expansion_variable_def Let_def)

theorem get_expansion_variable_outside_dependencies_witness:
  "get_expansion_variable ex_state 2 [1, -3] = (Inl AssignmentOutsideDependencies, ex_state)"
proof -
  have "\<exists>l\<in>set [1, - 3 :: int]. \<bar>l\<bar> \<notin> dep_set_of ex_state 2"
    by (simp add: dep_set_of_def ex_state_def)
  from get_expansion_variable_outside_dependencies [OF this]
  show ?thesis by (auto simp: ex_state_def)
qed

subsection \<open>Construction initializes every existential\<close>

lemma maps_aligned_iff: "maps_aligned s = (\<forall>e. map_of (value_vars s) e \<noteq> None \<longrightarrow> has_model s e)"
  by (auto simp: maps_aligned_def list_all_iff has_model_def map_of_eq_None_iff)

lemma init_model_ok:
  assumes "e \<in> set (existential_var_ids s)" "maps_aligned s"
  shows "\<exists>s'. init_model s e = (Inr (), s') \<and> existential_var_ids s' = existential_var_ids s \<and>
           maps_aligned s' \<and> has_model s' e \<and> (\<forall>e'. has_model s e' \<longrightarrow> has_model s' e')"
  using assms
  by (auto simp: init_model_def maps_aligned_iff has_model_def counter_increase_def
      cex_add_clause_def update_conv')

lemma init_all_ok:
  assumes "set es \<subseteq> set (existential_var_ids s)" "maps_aligned s"
  shows "\<exists>s'. init_all s es = (Inr (), s') \<and> existential_var_ids s' = existential_var_ids s \<and>
           maps_aligned s' \<and> (\<forall>e\<in>set es. has_model s' e) \<and> (\<forall>e'. has_model s e' \<longrightarrow> has_model s' e')"
  using assms
proof (induction es arbitrary: s)
  case Nil
  then show ?case by simp
next
  case (Cons e es)
  from Cons.prems obtain s1 where s1: "init_model s e = (Inr (), s1)"
    "existential_var_ids s1 = existential_var_ids s" "maps_aligned s1" "has_model s1 e"
    "\<forall>e'. has_model s e' \<longrightarrow> has_model s1 e'"
    using init_model_ok [of e s] by auto
  from Cons.IH [of s1] Cons.prems s1 obtain s' where s': "init_all s1 es = (Inr (), s')"
    "existential_var_ids s' = existential_var_ids s1" "maps_aligned s'"
    "\<forall>e\<in>set es. has_model s' e" "\<forall>e'. has_model s1 e' \<longrightarrow> has_model s' e'"
    by auto
  show ?case using s1 s' by auto
qed

lemma set_default_value_ok: "has_model s e \<Longrightarrow> fst (set_default_value s e b) = Inr ()"
  by (auto simp: has_model_def set_default_value_def)

lemma add_rule_ok: "has_model s e \<Longrightarrow> fst (add_rule s e p c vv) = Inr ()"
  by (auto simp: has_model_def add_rule_def counter_increase_def Let_def split: option.splits)

text \<open>
  C9. When the constructor returns an object, every existential id has an entry in
  \<^verbatim>\<open>value_vars\<close>, \<^verbatim>\<open>no_rule_fired_vars\<close> and \<^verbatim>\<open>rule_fire_vars\<close>; hence for every
  existential id \<^verbatim>\<open>set_default_value\<close> and \<^verbatim>\<open>add_rule\<close> on that object succeed, whatever
  their other arguments: the branch that reports an uninitialized existential is not taken.
\<close>

theorem construction_initializes:
  assumes "dqbf_solver_init n2i deps mtx uvars g cnt evars = Inr s"
  shows "initialized s \<and>
         (\<forall>e\<in>set (existential_var_ids s).
            map_of (value_vars s) e \<noteq> None \<and> map_of (no_rule_fired_vars s) e \<noteq> None \<and>
            map_of (rule_fire_vars s) e \<noteq> None \<and>
            (\<forall>b. fst (set_default_value s e b) = Inr ()) \<and>
            (\<forall>p c vv. fst (add_rule s e p c vv) = Inr ()))"
proof -
  from assms obtain univ_ids exist_ids by_id by_id_list s0 where
    s0: "s0 = \<lparr>matrix = mtx, output_gate_id = g,
              counter = (case cnt of None \<Rightarrow> initial_max_id n2i mtx | Some c \<Rightarrow> c),
              universal_var_ids = univ_ids, existential_var_ids = exist_ids,
              dependencies_by_id = by_id, dependencies_by_id_list = by_id_list,
              value_vars = [], no_rule_fired_vars = [], rule_fire_vars = [],
              permanent_assumptions = [], expansion_vars = [], expansion_vars_set = {},
              expansion_variable_assignment = [], expansion_solver = [],
              counterexample_solver = mtx,
              last_counterexample_existentials = None,
              last_counterexample_universals = None\<rparr>"
    and r: "init_all s0 exist_ids = (Inr (), s)"
    by (auto simp: dqbf_solver_init_def Let_def split: sum.splits prod.splits)
  have "maps_aligned s0" "set exist_ids \<subseteq> set (existential_var_ids s0)"
    by (simp_all add: s0 maps_aligned_def)
  from init_all_ok [OF this(2,1)] r
  have "existential_var_ids s = exist_ids" "\<forall>e\<in>set exist_ids. has_model s e"
    by (auto simp: s0)
  then have "\<forall>e\<in>set (existential_var_ids s). has_model s e" by simp
  then show ?thesis
    using set_default_value_ok add_rule_ok
    by (auto simp: initialized_def list_all_iff has_model_def)
qed

theorem construction_initializes_witness:
  "dqbf_solver_init [(''u'', 1), (''e'', 2), (''g'', 3)] [(''e'', [''u''])]
     [[-3, -1, 2], [-3, 1, -2], [3, 1, 2], [3, -1, -2]] [''u''] 3 None [''e''] = Inr ex_state \<and>
   initialized ex_state \<and> map_of (value_vars ex_state) 2 = Some 4 \<and>
   fst (set_default_value ex_state 2 False) = Inr () \<and>
   fst (add_rule ex_state 2 [1] True None) = Inr ()"
proof -
  have i: "dqbf_solver_init [(''u'', 1), (''e'', 2), (''g'', 3)] [(''e'', [''u''])]
     [[-3, -1, 2], [-3, 1, -2], [3, 1, 2], [3, -1, -2]] [''u''] 3 None [''e''] = Inr ex_state"
    using ex_init_state by (simp add: ex_init_def)
  have m: "2 \<in> set (existential_var_ids ex_state)" by (simp add: ex_state_def)
  have v: "map_of (value_vars ex_state) 2 = Some 4" by (simp add: ex_state_def)
  from construction_initializes [OF i] m i v show ?thesis by blast
qed


subsection \<open>Expansion registry: interning\<close>

lemma fold_cex_add_clause:
  "fold (\<lambda>lit. cex_add_clause (f lit)) p s =
     s\<lparr>counterexample_solver := counterexample_solver s @ map f p\<rparr>"
  by (induction p arbitrary: s) (simp_all add: cex_add_clause_def)

lemma add_rule_result:
  assumes "map_of (value_vars s) e = Some v" "map_of (no_rule_fired_vars s) e = Some n"
    "map_of (rule_fire_vars s) e = Some f"
  shows "add_rule s e p c (Some x) =
    (Inr (), s\<lparr>counter := counter s + 3,
        rule_fire_vars := AList.update e (counter s + 1) (rule_fire_vars s),
        no_rule_fired_vars := AList.update e (counter s + 2) (no_rule_fired_vars s),
        value_vars := AList.update e (counter s + 3) (value_vars s),
        counterexample_solver := counterexample_solver s @
          add_rule_clauses e (counter s) n f p @ [[- \<bar>v\<bar>, x], [\<bar>v\<bar>, - x]]\<rparr>)"
  using assms
  by (simp add: add_rule_def counter_increase_def Let_def fold_cex_add_clause cex_add_clause_def
      add_rule_clauses_def algebra_simps)

lemma get_expansion_variable_known:
  assumes "e \<in> set (existential_var_ids s)" "abs ` set a \<subseteq> dep_set_of s e"
    "map_of (expansion_vars s) (e, sort_key abs a) = Some x"
  shows "get_expansion_variable s e a = (Inr x, s)"
  using assms by (simp add: get_expansion_variable_def Let_def)

lemma get_expansion_variable_fresh:
  assumes "e \<in> set (existential_var_ids s)" "abs ` set a \<subseteq> dep_set_of s e"
    "map_of (expansion_vars s) (e, sort_key abs a) = None"
    "map_of (value_vars s) e = Some v" "map_of (no_rule_fired_vars s) e = Some n"
    "map_of (rule_fire_vars s) e = Some f"
  shows "get_expansion_variable s e a =
    (Inr (counter s + 1),
     s\<lparr>counter := counter s + 4,
       expansion_vars := AList.update (e, sort_key abs a) (counter s + 1) (expansion_vars s),
       rule_fire_vars := AList.update e (counter s + 2) (rule_fire_vars s),
       no_rule_fired_vars := AList.update e (counter s + 3) (no_rule_fired_vars s),
       value_vars := AList.update e (counter s + 4) (value_vars s),
       counterexample_solver := counterexample_solver s @
          add_rule_clauses e (counter s + 1) n f a @
          [[- \<bar>v\<bar>, counter s + 1], [\<bar>v\<bar>, - (counter s + 1)]],
       expansion_vars_set := insert (counter s + 1) (expansion_vars_set s)\<rparr>)"
  using assms
  by (simp add: get_expansion_variable_def Let_def counter_increase_def add_rule_result
      algebra_simps)

lemma get_expansion_variable_Inr:
  assumes "get_expansion_variable s e a = (Inr x, s1)"
  shows "e \<in> set (existential_var_ids s) \<and> abs ` set a \<subseteq> dep_set_of s e \<and>
         map_of (expansion_vars s1) (e, sort_key abs a) = Some x \<and>
         existential_var_ids s1 = existential_var_ids s \<and>
         dependencies_by_id s1 = dependencies_by_id s"
  using assms
  by (auto simp: get_expansion_variable_def Let_def counter_increase_def add_rule_def
      fold_cex_add_clause cex_add_clause_def update_conv'
      split: if_splits option.splits prod.splits sum.splits)

lemma add_rule_fst_premise: "fst (add_rule s e p c vv) = fst (add_rule s e p' c vv)"
  by (simp add: add_rule_def counter_increase_def Let_def split: option.splits)

lemma get_expansion_variable_fst_perm:
  assumes k: "sort_key abs a' = sort_key abs a" and st: "set a' = set a"
  shows "fst (get_expansion_variable s e a') = fst (get_expansion_variable s e a)"
proof -
  let ?s2 = "(snd (counter_increase s))\<lparr>expansion_vars :=
      AList.update (e, sort_key abs a) (counter s + 1) (expansion_vars s)\<rparr>"
  have "fst (add_rule ?s2 e a' True (Some (counter s + 1))) =
        fst (add_rule ?s2 e a True (Some (counter s + 1)))"
    by (rule add_rule_fst_premise)
  then show ?thesis
    by (cases "add_rule ?s2 e a' True (Some (counter s + 1))";
        cases "add_rule ?s2 e a True (Some (counter s + 1))")
      (auto simp: get_expansion_variable_def Let_def k st counter_increase_def
        split: option.splits sum.splits)
qed

text \<open>
  C5. Let \<open>a\<close> be an assignment, that is a list of literals in which no two different
  literals have the same variable, and \<open>a'\<close> a permutation of it. From the same state,
  \<^verbatim>\<open>get_expansion_variable\<close> gives the same result (the same id, or the same failure) for
  \<open>a'\<close> as for \<open>a\<close>. And once a call for \<open>(e, a)\<close> has returned the id \<open>x\<close>, a further
  call for \<open>a\<close> or for any permutation of it returns \<open>x\<close> and leaves the whole object as it
  is: no id is allocated, nothing is added to the registry, and no clause is added.
\<close>

theorem expansion_interning:
  assumes "mset a' = mset a" and "inj_on abs (set a)"
  shows "fst (get_expansion_variable s e a') = fst (get_expansion_variable s e a) \<and>
         (\<forall>x s1. get_expansion_variable s e a = (Inr x, s1) \<longrightarrow>
            get_expansion_variable s1 e a' = (Inr x, s1) \<and>
            get_expansion_variable s1 e a = (Inr x, s1))"
proof -
  have k: "sort_key abs a' = sort_key abs a"
    using assms by (metis sort_key_eq_sort_key)
  have st: "set a' = set a" using assms(1) by (rule mset_eq_setD)
  have 1: "fst (get_expansion_variable s e a') = fst (get_expansion_variable s e a)"
    using k st by (rule get_expansion_variable_fst_perm)
  have 2: "get_expansion_variable s1 e a' = (Inr x, s1) \<and>
           get_expansion_variable s1 e a = (Inr x, s1)"
    if "get_expansion_variable s e a = (Inr x, s1)" for x s1
  proof -
    from get_expansion_variable_Inr [OF that]
    have "e \<in> set (existential_var_ids s1)" "abs ` set a \<subseteq> dep_set_of s1 e"
      "map_of (expansion_vars s1) (e, sort_key abs a) = Some x"
      by (simp_all add: dep_set_of_def)
    then show ?thesis
      using get_expansion_variable_known [of e s1 a x]
        get_expansion_variable_known [of e s1 a' x] k st by simp
  qed
  from 1 2 show ?thesis by blast
qed

theorem expansion_interning_witness:
  "mset [- 2, 1 :: int] = mset [1, - 2] \<and> inj_on abs (set [1, - 2 :: int]) \<and>
   fst (get_expansion_variable ex2_state 3 [- 2, 1]) = Inr 8 \<and>
   fst (get_expansion_variable ex2_state 3 [1, - 2]) = Inr 8 \<and>
   get_expansion_variable (snd (get_expansion_variable ex2_state 3 [1, - 2])) 3 [- 2, 1] =
     (Inr 8, snd (get_expansion_variable ex2_state 3 [1, - 2]))"
proof -
  have p: "mset [- 2, 1 :: int] = mset [1, - 2]" by simp
  have i: "inj_on abs (set [1, - 2 :: int])" by simp
  have e: "3 \<in> set (existential_var_ids ex2_state)"
    "abs ` set [1, - 2] \<subseteq> dep_set_of ex2_state 3"
    "map_of (expansion_vars ex2_state) (3, sort_key abs [1, - 2]) = None"
    "map_of (value_vars ex2_state) 3 = Some 5"
    "map_of (no_rule_fired_vars ex2_state) 3 = Some 6"
    "map_of (rule_fire_vars ex2_state) 3 = Some 7"
    "counter ex2_state = 7"
    by (simp_all add: ex2_state_def dep_set_of_def)
  have r: "fst (get_expansion_variable ex2_state 3 [1, - 2]) = Inr 8"
    using get_expansion_variable_fresh [OF e(1-6)] e(7) by simp
  obtain s1 where s1: "get_expansion_variable ex2_state 3 [1, - 2] = (Inr 8, s1)"
    using r by (cases "get_expansion_variable ex2_state 3 [1, - 2]") auto
  from expansion_interning [OF p i, of ex2_state 3] r s1 p i show ?thesis by auto
qed

subsection \<open>The handle dicts after construction\<close>

lemma init_model_keys:
  assumes "e \<in> set (existential_var_ids s)"
    "set (map fst (no_rule_fired_vars s)) = set (map fst (value_vars s))"
    "set (map fst (rule_fire_vars s)) = set (map fst (value_vars s))"
  shows "\<exists>s'. init_model s e = (Inr (), s') \<and>
         existential_var_ids s' = existential_var_ids s \<and>
         set (map fst (value_vars s')) = insert e (set (map fst (value_vars s))) \<and>
         set (map fst (no_rule_fired_vars s')) = set (map fst (value_vars s')) \<and>
         set (map fst (rule_fire_vars s')) = set (map fst (value_vars s'))"
  using assms
  by (auto simp: init_model_def counter_increase_def cex_add_clause_def dom_update
      map_of_eq_None_iff)

lemma init_all_keys:
  assumes "set es \<subseteq> set (existential_var_ids s)"
    "set (map fst (no_rule_fired_vars s)) = set (map fst (value_vars s))"
    "set (map fst (rule_fire_vars s)) = set (map fst (value_vars s))"
  shows "\<exists>s'. init_all s es = (Inr (), s') \<and>
         existential_var_ids s' = existential_var_ids s \<and>
         set (map fst (value_vars s')) = set es \<union> set (map fst (value_vars s)) \<and>
         set (map fst (no_rule_fired_vars s')) = set (map fst (value_vars s')) \<and>
         set (map fst (rule_fire_vars s')) = set (map fst (value_vars s'))"
  using assms
proof (induction es arbitrary: s)
  case Nil
  then show ?case by simp
next
  case (Cons e es)
  from init_model_keys [of e s] Cons.prems obtain s1 where s1:
    "init_model s e = (Inr (), s1)" "existential_var_ids s1 = existential_var_ids s"
    "set (map fst (value_vars s1)) = insert e (set (map fst (value_vars s)))"
    "set (map fst (no_rule_fired_vars s1)) = set (map fst (value_vars s1))"
    "set (map fst (rule_fire_vars s1)) = set (map fst (value_vars s1))"
    by auto
  from Cons.IH [of s1] Cons.prems(1) s1 obtain s' where s':
    "init_all s1 es = (Inr (), s')" "existential_var_ids s' = existential_var_ids s1"
    "set (map fst (value_vars s')) = set es \<union> set (map fst (value_vars s1))"
    "set (map fst (no_rule_fired_vars s')) = set (map fst (value_vars s'))"
    "set (map fst (rule_fire_vars s')) = set (map fst (value_vars s'))"
    by auto
  show ?case using s1 s' by auto
qed

lemma construction_handles_exact:
  assumes "dqbf_solver_init n2i deps mtx uvars g cnt evars = Inr s"
  shows "handles_exact s"
proof -
  from assms obtain univ_ids exist_ids by_id by_id_list s0 where
    s0: "s0 = \<lparr>matrix = mtx, output_gate_id = g,
              counter = (case cnt of None \<Rightarrow> initial_max_id n2i mtx | Some c \<Rightarrow> c),
              universal_var_ids = univ_ids, existential_var_ids = exist_ids,
              dependencies_by_id = by_id, dependencies_by_id_list = by_id_list,
              value_vars = [], no_rule_fired_vars = [], rule_fire_vars = [],
              permanent_assumptions = [], expansion_vars = [], expansion_vars_set = {},
              expansion_variable_assignment = [], expansion_solver = [],
              counterexample_solver = mtx,
              last_counterexample_existentials = None,
              last_counterexample_universals = None\<rparr>"
    and r: "init_all s0 exist_ids = (Inr (), s)"
    by (auto simp: dqbf_solver_init_def Let_def split: sum.splits prod.splits)
  from init_all_keys [of exist_ids s0] r show ?thesis
    by (auto simp: s0 handles_exact_def)
qed


subsection \<open>The reference SAT engine is sound\<close>

lemma search_satisfies: "search db vs m = Some r \<Longrightarrow> satisfies r db"
  by (induction vs arbitrary: m) (auto split: if_splits option.splits)

lemma search_extends:
  "search db vs m = Some r \<Longrightarrow> \<exists>ext. r = m @ ext \<and> map abs ext = map abs vs"
proof (induction vs arbitrary: m)
  case Nil
  then show ?case by (auto split: if_splits)
next
  case (Cons v vs)
  from Cons.prems have "search db vs (m @ [- v]) = Some r \<or> search db vs (m @ [v]) = Some r"
    by (auto split: if_splits option.splits)
  then show ?case
  proof
    assume "search db vs (m @ [- v]) = Some r"
    from Cons.IH [OF this] obtain ext where "r = (m @ [- v]) @ ext" "map abs ext = map abs vs"
      by blast
    then show ?thesis by (intro exI [of _ "- v # ext"]) simp
  next
    assume "search db vs (m @ [v]) = Some r"
    from Cons.IH [OF this] obtain ext where "r = (m @ [v]) @ ext" "map abs ext = map abs vs"
      by blast
    then show ?thesis by (intro exI [of _ "v # ext"]) simp
  qed
qed

lemma distinct_abs_consistent:
  assumes "distinct (map abs (m :: int list))" "l \<in> set m" "l \<noteq> 0"
  shows "- l \<notin> set m"
proof
  assume "- l \<in> set m"
  with assms(1,2) have "inj_on abs (set m)" "l \<in> set m" "- l \<in> set m"
    by (simp_all add: distinct_map)
  then have "l = - l" using inj_onD [of abs "set m" l "- l"] by simp
  with assms(3) show False by simp
qed

lemma ref_model_sound:
  assumes "ref_model db asms = Some m"
  shows "satisfies m db \<and> set asms \<subseteq> set m \<and> (\<forall>l\<in>set m. - l \<notin> set m)"
proof -
  let ?db = "db @ map (\<lambda>a. [a]) asms"
  from assms have s: "search ?db [1..max_var db asms] [] = Some m" by (simp add: ref_model_def)
  from search_satisfies [OF s] have sat: "satisfies m ?db" .
  then have 1: "satisfies m db" by (simp add: satisfies_def)
  have 2: "set asms \<subseteq> set m"
  proof
    fix a assume "a \<in> set asms"
    then have "[a] \<in> set ?db" by simp
    with sat have "list_ex (\<lambda>l. l \<in> set m) [a]" unfolding satisfies_def list_all_iff by blast
    then show "a \<in> set m" by simp
  qed
  from search_extends [OF s] have ab: "map abs m = map abs [1..max_var db asms]" by auto
  have "map abs [1..max_var db asms] = [1..max_var db asms]"
    by (rule map_idI) auto
  with ab have d: "distinct (map abs m)" and nz: "0 \<notin> set (map abs m)" by auto
  have "- l \<notin> set m" if "l \<in> set m" for l
  proof -
    from that nz have "l \<noteq> 0" by force
    with d that show ?thesis by (rule distinct_abs_consistent)
  qed
  with 1 2 show ?thesis by blast
qed

lemma is_model_iff:
  "is_model m db asms \<longleftrightarrow>
     (\<forall>l\<in>set m. - l \<notin> set m) \<and> (\<forall>c\<in>set db. \<exists>l\<in>set c. l \<in> set m) \<and> set asms \<subseteq> set m"
  by (auto simp: is_model_def consistent_def satisfies_def list_all_iff list_ex_iff)

lemma is_model_weaken: "is_model m db asms \<Longrightarrow> is_model m db []"
  by (simp add: is_model_iff)

lemma ref_sat_sound: "sound_engine ref_sat db"
  unfolding sound_engine_def is_model_iff
  using ref_model_sound by (auto simp: ref_sat_def satisfies_def list_all_iff list_ex_iff)

subsection \<open>Counterexample engine\<close>

lemma values_of_keys:
  assumes "set (map fst al) = A"
  shows "set (map snd al) = {v. \<exists>k\<in>A. (k, v) \<in> set al}"
  using assms by force

lemma verification_unsat:
  assumes sound: "sound_engine sat (counterexample_solver s)" and det: "gate_determined s"
    and m: "sat_model sat (counterexample_solver s)
        ([- output_gate_id s] @ permanent_assumptions s @ map snd (rule_fire_vars s) @
         map snd (value_vars s) @ expansion_variable_assignment s) = Some m"
  shows "sat_model sat (counterexample_solver s)
      (filter (\<lambda>lit. \<bar>lit\<bar> \<in> set (universal_var_ids s)) m @
       filter (\<lambda>lit. \<bar>lit\<bar> \<in> set (existential_var_ids s)) m @ [output_gate_id s]) = None"
proof (rule ccontr)
  let ?a2 = "filter (\<lambda>lit. \<bar>lit\<bar> \<in> set (universal_var_ids s)) m @
       filter (\<lambda>lit. \<bar>lit\<bar> \<in> set (existential_var_ids s)) m @ [output_gate_id s]"
  assume "sat_model sat (counterexample_solver s) ?a2 \<noteq> None"
  then obtain m2 where m2: "sat_model sat (counterexample_solver s) ?a2 = Some m2" by auto
  from sound m have 1: "is_model m (counterexample_solver s)
        ([- output_gate_id s] @ permanent_assumptions s @ map snd (rule_fire_vars s) @
         map snd (value_vars s) @ expansion_variable_assignment s)"
    unfolding sound_engine_def by blast
  from sound m2 have 2: "is_model m2 (counterexample_solver s) ?a2"
    unfolding sound_engine_def by blast
  from 1 have g1: "- output_gate_id s \<in> set m" by (simp add: is_model_iff)
  from 2 have g2: "output_gate_id s \<in> set m2" by (simp add: is_model_iff)
  from 2 have "list_all (\<lambda>l. \<bar>l\<bar> \<in> set (universal_var_ids s) \<union> set (existential_var_ids s) \<longrightarrow>
                            l \<in> set m2) m"
    by (auto simp: is_model_iff list_all_iff)
  with det is_model_weaken [OF 1] is_model_weaken [OF 2]
  have "\<not> (- output_gate_id s \<in> set m \<and> output_gate_id s \<in> set m2)"
    unfolding gate_determined_def by blast
  with g1 g2 show False by simp
qed

text \<open>
  C2. Let the engine be sound on the clause database of the counterexample solver, and let
  this database determine the output gate from the quantified variables. The first query of
  \<^verbatim>\<open>get_counterexample\<close> has the assumptions \<open>\<not>g\<close>, the permanent assumptions, the values of
  \<^verbatim>\<open>rule_fire_vars\<close>, the values of \<^verbatim>\<open>value_vars\<close> and the stored expansion assignment, in
  this order; when the keys of the handle dicts are the existential ids, these are the fire
  and the signed value variable of every existential. If the query is UNSAT the result is
  \<open>(False, None)\<close>. If it is SAT with model \<open>m\<close>, then the verification query, whose
  assumptions are \<open>m\<close> projected to the universal ids, \<open>m\<close> projected to the existential ids
  and \<open>g\<close>, is UNSAT, and the result is \<open>(True, (core', u))\<close> with \<open>u\<close> the projection of \<open>m\<close>
  to the universal ids and \<open>core'\<close> the core of the verification query filtered to
  existential ids (the empty list when the engine reports no core). The object is never
  changed.
\<close>

theorem get_counterexample_behaviour:
  fixes sat s
  defines "a1 \<equiv> [- output_gate_id s] @ permanent_assumptions s @
      map snd (rule_fire_vars s) @ map snd (value_vars s) @ expansion_variable_assignment s"
  defines "db \<equiv> counterexample_solver s"
  defines "ex \<equiv> (\<lambda>lit. \<bar>lit\<bar> \<in> set (existential_var_ids s))"
  defines "un \<equiv> (\<lambda>lit. \<bar>lit\<bar> \<in> set (universal_var_ids s))"
  assumes sound: "sound_engine sat db" and det: "gate_determined s"
  shows "(handles_exact s \<longrightarrow>
            set a1 = {- output_gate_id s} \<union> set (permanent_assumptions s) \<union>
              {f. \<exists>e\<in>set (existential_var_ids s). (e, f) \<in> set (rule_fire_vars s)} \<union>
              {v. \<exists>e\<in>set (existential_var_ids s). (e, v) \<in> set (value_vars s)} \<union>
              set (expansion_variable_assignment s)) \<and>
         (sat_model sat db a1 = None \<longrightarrow> get_counterexample sat s = (Inr (False, None), s)) \<and>
         (\<forall>m. sat_model sat db a1 = Some m \<longrightarrow>
            (let a2 = filter un m @ filter ex m @ [output_gate_id s]
             in sat_model sat db a2 = None \<and>
                get_counterexample sat s =
                  (Inr (True, Some (filter ex (case sat_core sat db a2 of None \<Rightarrow> [] | Some c \<Rightarrow> c),
                                    filter un m)), s)))"
proof -
  have "set a1 = {- output_gate_id s} \<union> set (permanent_assumptions s) \<union>
              {f. \<exists>e\<in>set (existential_var_ids s). (e, f) \<in> set (rule_fire_vars s)} \<union>
              {v. \<exists>e\<in>set (existential_var_ids s). (e, v) \<in> set (value_vars s)} \<union>
              set (expansion_variable_assignment s)" if "handles_exact s"
  proof -
    have "set (map snd (rule_fire_vars s)) =
        {f. \<exists>e\<in>set (existential_var_ids s). (e, f) \<in> set (rule_fire_vars s)}"
      "set (map snd (value_vars s)) =
        {v. \<exists>e\<in>set (existential_var_ids s). (e, v) \<in> set (value_vars s)}"
      using that values_of_keys [of "rule_fire_vars s" "set (existential_var_ids s)"]
        values_of_keys [of "value_vars s" "set (existential_var_ids s)"]
      by (simp_all add: handles_exact_def)
    then show ?thesis unfolding a1_def set_append by auto
  qed
  moreover have "sat_model sat db (filter un m @ filter ex m @ [output_gate_id s]) = None"
    if "sat_model sat db a1 = Some m" for m
    using verification_unsat [OF sound [unfolded db_def] det that [unfolded a1_def db_def]]
    by (simp add: db_def un_def ex_def)
  ultimately show ?thesis
    by (auto simp: get_counterexample_def Let_def a1_def db_def ex_def un_def)
qed

lemma ex_gate_determined: "gate_determined ex_state"
  unfolding gate_determined_def
proof (intro allI impI)
  fix m1 m2
  have db: "set (counterexample_solver ex_state) =
      {[-3, -1, 2], [-3, 1, -2], [3, 1, 2], [3, -1, -2], [5], [-5, -6, -2, 4], [-5, -6, 2, -4]}"
    and q: "set (universal_var_ids ex_state) \<union> set (existential_var_ids ex_state) = {1, 2}"
    and g: "output_gate_id ex_state = 3"
    by (auto simp: ex_state_def)
  assume a: "is_model m1 (counterexample_solver ex_state) [] \<and>
             is_model m2 (counterexample_solver ex_state) [] \<and>
             list_all (\<lambda>l. \<bar>l\<bar> \<in> set (universal_var_ids ex_state) \<union> set (existential_var_ids ex_state) \<longrightarrow>
                            l \<in> set m2) m1"
  then have c1: "\<forall>l\<in>set m1. - l \<notin> set m1" and c2: "\<forall>l\<in>set m2. - l \<notin> set m2"
    and s1: "\<forall>c\<in>set (counterexample_solver ex_state). \<exists>l\<in>set c. l \<in> set m1"
    and s2: "\<forall>c\<in>set (counterexample_solver ex_state). \<exists>l\<in>set c. l \<in> set m2"
    and ag: "\<forall>l\<in>set m1. \<bar>l\<bar> \<in> set (universal_var_ids ex_state) \<union> set (existential_var_ids ex_state) \<longrightarrow> l \<in> set m2"
    unfolding is_model_iff list_all_iff by blast+
  from s1 have p1: "- 3 \<in> set m1 \<or> - 1 \<in> set m1 \<or> 2 \<in> set m1"
    "- 3 \<in> set m1 \<or> 1 \<in> set m1 \<or> - 2 \<in> set m1"
    "3 \<in> set m1 \<or> 1 \<in> set m1 \<or> 2 \<in> set m1"
    "3 \<in> set m1 \<or> - 1 \<in> set m1 \<or> - 2 \<in> set m1"
    unfolding db by simp_all
  from s2 have p2: "- 3 \<in> set m2 \<or> - 1 \<in> set m2 \<or> 2 \<in> set m2"
    "- 3 \<in> set m2 \<or> 1 \<in> set m2 \<or> - 2 \<in> set m2"
    "3 \<in> set m2 \<or> 1 \<in> set m2 \<or> 2 \<in> set m2"
    "3 \<in> set m2 \<or> - 1 \<in> set m2 \<or> - 2 \<in> set m2"
    unfolding db by simp_all
  from ag have t: "1 \<in> set m1 \<longrightarrow> 1 \<in> set m2" "- 1 \<in> set m1 \<longrightarrow> - 1 \<in> set m2"
    "2 \<in> set m1 \<longrightarrow> 2 \<in> set m2" "- 2 \<in> set m1 \<longrightarrow> - 2 \<in> set m2"
    unfolding q by auto
  have n1: "1 \<in> set m1 \<longrightarrow> - 1 \<notin> set m1" "2 \<in> set m1 \<longrightarrow> - 2 \<notin> set m1"
    "3 \<in> set m1 \<longrightarrow> - 3 \<notin> set m1"
    using c1 by blast+
  have n2: "1 \<in> set m2 \<longrightarrow> - 1 \<notin> set m2" "2 \<in> set m2 \<longrightarrow> - 2 \<notin> set m2"
    "3 \<in> set m2 \<longrightarrow> - 3 \<notin> set m2"
    using c2 by blast+
  show "\<not> (- output_gate_id ex_state \<in> set m1 \<and> output_gate_id ex_state \<in> set m2) \<and>
        \<not> (output_gate_id ex_state \<in> set m1 \<and> - output_gate_id ex_state \<in> set m2)"
    unfolding g using p1 p2 t n1 n2 by argo
qed

theorem get_counterexample_behaviour_witness:
  "sound_engine ref_sat (counterexample_solver ex_state) \<and> gate_determined ex_state \<and>
   handles_exact ex_state \<and>
   sat_model ref_sat (counterexample_solver ex_state) [- 3, 6, 4] = Some [- 1, 2, - 3, 4, 5, 6] \<and>
   sat_model ref_sat (counterexample_solver ex_state) [- 1, 2, 3] = None \<and>
   get_counterexample ref_sat ex_state = (Inr (True, Some ([2], [- 1])), ex_state)"
proof -
  have h: "handles_exact ex_state" by (simp add: handles_exact_def ex_state_def)
  have m1: "sat_model ref_sat (counterexample_solver ex_state) [- 3, 6, 4] =
      Some [- 1, 2, - 3, 4, 5, 6]" by code_simp
  have c: "sat_core ref_sat (counterexample_solver ex_state) [- 1, 2, 3] = Some [- 1, 2, 3]"
    by code_simp
  have a1: "[- output_gate_id ex_state] @ permanent_assumptions ex_state @
      map snd (rule_fire_vars ex_state) @ map snd (value_vars ex_state) @
      expansion_variable_assignment ex_state = [- 3, 6, 4]"
    by (simp add: ex_state_def)
  have fu: "filter (\<lambda>lit. \<bar>lit\<bar> \<in> set (universal_var_ids ex_state)) [- 1, 2, - 3, 4, 5, 6] = [- 1]"
    and fe: "filter (\<lambda>lit. \<bar>lit\<bar> \<in> set (existential_var_ids ex_state)) [- 1, 2, - 3, 4, 5, 6] = [2]"
    and fc: "filter (\<lambda>lit. \<bar>lit\<bar> \<in> set (existential_var_ids ex_state)) [- 1, 2, 3] = [2]"
    and g: "output_gate_id ex_state = 3"
    by (simp_all add: ex_state_def)
  note t = get_counterexample_behaviour [where s = ex_state and sat = ref_sat,
      OF ref_sat_sound ex_gate_determined, unfolded a1]
  note t3 = t [THEN conjunct2, THEN conjunct2, THEN spec, THEN mp, OF m1]
  note t4 = t3 [unfolded Let_def fu fe g append.simps]
  have m2: "sat_model ref_sat (counterexample_solver ex_state) [- 1, 2, 3] = None"
    using t4 by (rule conjunct1)
  have "get_counterexample ref_sat ex_state = (Inr (True, Some ([2], [- 1])), ex_state)"
    using t4 [THEN conjunct2] by (simp only: c fc option.simps)
  with h m1 m2 ref_sat_sound ex_gate_determined show ?thesis by (intro conjI)
qed

text \<open>
  The second hypothesis cannot be dropped: on the solver built for the matrix \<open>g \<leftrightarrow> x\<close> with
  \<open>x\<close> a free variable (neither universal nor existential), both queries are satisfiable
  and \<^verbatim>\<open>get_counterexample\<close> fails its assertion.
\<close>

lemma get_counterexample_undetermined_gate:
  "sat_model ref_sat (counterexample_solver ex3_state)
     ([- output_gate_id ex3_state] @ permanent_assumptions ex3_state @
      map snd (rule_fire_vars ex3_state) @ map snd (value_vars ex3_state) @
      expansion_variable_assignment ex3_state) = Some [- 1, - 2] \<and>
   get_counterexample ref_sat ex3_state = (Inl AssertionError, ex3_state)"
  by code_simp


subsection \<open>Refinement engine\<close>









subsection \<open>CEGAR driver\<close>

















subsection \<open>Union-find: representatives\<close>

lemma uf_root_is_root: "uf_root pm x r \<Longrightarrow> pm r = Some r"
  by (induction rule: uf_root.induct) auto

lemma uf_root_functional: "uf_root pm x r \<Longrightarrow> uf_root pm x r' \<Longrightarrow> r = r'"
proof (induction arbitrary: r' rule: uf_root.induct)
  case (root_self x)
  then show ?case by (auto elim: uf_root.cases)
next
  case (root_step x p r)
  from root_step.prems root_step.hyps(1,2) have "uf_root pm p r'"
    by (auto elim: uf_root.cases)
  then show ?case by (rule root_step.IH)
qed

lemma uf_root_of_root: "pm r = Some r \<Longrightarrow> uf_root pm r r' \<Longrightarrow> r' = r"
  using uf_root_functional root_self by metis

lemma uf_root_compress_fwd:
  assumes xr: "uf_root pm x r"
  shows "uf_root pm y r' \<Longrightarrow> uf_root (pm(x \<mapsto> r)) y r'"
proof (induction rule: uf_root.induct)
  case (root_self y)
  show ?case
  proof (cases "y = x")
    case True
    with root_self xr have "r = x" using uf_root_of_root by blast
    with True show ?thesis by (auto intro: uf_root.root_self)
  next
    case False
    with root_self show ?thesis by (auto intro: uf_root.root_self)
  qed
next
  case (root_step y p r')
  show ?case
  proof (cases "y = x")
    case True
    have "uf_root pm x r'" using root_step.hyps True by (auto intro: uf_root.root_step)
    with xr have rr: "r' = r" using uf_root_functional by blast
    have rt: "pm r = Some r" using xr by (rule uf_root_is_root)
    have "r \<noteq> x" using rt root_step.hyps(1,2) True by auto
    then have "uf_root (pm(x \<mapsto> r)) r r" using rt by (auto intro: uf_root.root_self)
    then have "uf_root (pm(x \<mapsto> r)) x r" using \<open>r \<noteq> x\<close>
      by (auto intro: uf_root.root_step [where p = r])
    with True rr show ?thesis by (simp add: fun_upd_def)
  next
    case False
    with root_step show ?thesis by (auto intro: uf_root.root_step [where p = p])
  qed
qed

lemma uf_root_compress_bwd:
  assumes xr: "uf_root pm x r"
  shows "uf_root (pm(x \<mapsto> r)) y r' \<Longrightarrow> uf_root pm y r'"
proof (induction rule: uf_root.induct)
  case (root_self y)
  show ?case
  proof (cases "y = x")
    case True
    with root_self xr show ?thesis by auto
  next
    case False
    with root_self show ?thesis by (auto intro: uf_root.root_self)
  qed
next
  case (root_step y p r')
  show ?case
  proof (cases "y = x")
    case True
    with root_step.hyps(1) have "p = r" by simp
    with root_step.IH have "uf_root pm r r'" by simp
    moreover have "pm r = Some r" using xr by (rule uf_root_is_root)
    ultimately have "r' = r" by (metis uf_root_of_root)
    with True xr show ?thesis by simp
  next
    case False
    with root_step show ?thesis by (auto intro: uf_root.root_step [where p = p])
  qed
qed

lemma uf_root_compress:
  "uf_root pm x r \<Longrightarrow> uf_root (pm(x \<mapsto> r)) y r' \<longleftrightarrow> uf_root pm y r'"
  using uf_root_compress_fwd uf_root_compress_bwd by blast

lemma uf_root_link:
  assumes "pm a = Some a" "pm b = Some b" "a \<noteq> b"
  shows "uf_root pm z r \<Longrightarrow> uf_root (pm(a \<mapsto> b)) z (if r = a then b else r)"
proof (induction rule: uf_root.induct)
  case (root_self z)
  show ?case
  proof (cases "z = a")
    case True
    have "uf_root (pm(a \<mapsto> b)) b b" using assms by (auto intro: uf_root.root_self)
    then have "uf_root (pm(a \<mapsto> b)) a b" using assms
      by (auto intro: uf_root.root_step [where p = b])
    with True show ?thesis by (simp add: fun_upd_def)
  next
    case False
    with root_self show ?thesis by (auto intro: uf_root.root_self)
  qed
next
  case (root_step z p r)
  have "z \<noteq> a" using root_step.hyps(1,2) assms(1) by auto
  with root_step show ?case by (auto intro: uf_root.root_step [where p = p])
qed

lemma update_keys_same:
  "map_of al k \<noteq> None \<Longrightarrow> map fst (AList.update k v al) = map fst al"
  by (simp add: update_keys map_of_eq_None_iff)

lemma uf_find_root:
  assumes "uf_root (map_of (uf_parent u)) x r"
  shows "\<exists>u'. uf_find u x = Some (Inr r, u') \<and> uf_rank u' = uf_rank u \<and>
           map fst (uf_parent u') = map fst (uf_parent u) \<and>
           (\<forall>y r'. uf_root (map_of (uf_parent u')) y r' \<longleftrightarrow>
                    uf_root (map_of (uf_parent u)) y r')"
  using assms
proof (induction rule: uf_root.induct)
  case (root_self x)
  then have "uf_find u x = Some (Inr x, u)"
    by (subst uf_find.simps) simp
  then show ?case by auto
next
  case (root_step x p r)
  then obtain u1 where u1: "uf_find u p = Some (Inr r, u1)" "uf_rank u1 = uf_rank u"
    "map fst (uf_parent u1) = map fst (uf_parent u)"
    "\<forall>y r'. uf_root (map_of (uf_parent u1)) y r' \<longleftrightarrow> uf_root (map_of (uf_parent u)) y r'"
    by blast
  let ?u2 = "u1\<lparr>uf_parent := AList.update x r (uf_parent u1)\<rparr>"
  have f: "uf_find u x = Some (Inr r, ?u2)"
    by (subst uf_find.simps) (simp add: root_step.hyps(1,2) u1(1) update_conv')
  have xr: "uf_root (map_of (uf_parent u)) x r"
    using root_step.hyps by (auto intro: uf_root.root_step)
  then have xr1: "uf_root (map_of (uf_parent u1)) x r" using u1(4) by simp
  have "map_of (uf_parent u1) x \<noteq> None"
    using root_step.hyps(1) u1(3)
    by (metis map_of_eq_None_iff option.distinct(1) set_map)
  then have k: "map fst (uf_parent ?u2) = map fst (uf_parent u)"
    using u1(3) by (simp add: update_keys_same)
  have "\<forall>y r'. uf_root (map_of (uf_parent ?u2)) y r' \<longleftrightarrow> uf_root (map_of (uf_parent u)) y r'"
    using uf_root_compress [OF xr1] u1(4) by (simp add: update_conv')
  with f k u1(2) show ?case by auto
qed

lemma uf_ok_iff:
  "uf_ok u \<longleftrightarrow> (\<forall>x\<in>set (map fst (uf_parent u)).
      \<exists>r. uf_root (map_of (uf_parent u)) x r \<and> map_of (uf_rank u) r \<noteq> None)"
  by (simp add: uf_ok_def list_all_iff)

lemma uf_root_key: "uf_root (map_of al) x r \<Longrightarrow> x \<in> set (map fst al)"
  by (induction rule: uf_root.induct) (auto dest: map_of_SomeD intro: rev_image_eqI)

lemma same_class_roots:
  assumes "uf_root (map_of (uf_parent u)) x rx" "uf_root (map_of (uf_parent u)) y ry"
  shows "same_class u x y \<longleftrightarrow> rx = ry"
  using assms uf_root_functional unfolding same_class_def by metis

lemma same_class_preserved:
  assumes "\<forall>y r'. uf_root (map_of (uf_parent u')) y r' \<longleftrightarrow> uf_root (map_of (uf_parent u)) y r'"
  shows "same_class u' z z' = same_class u z z'"
  using assms by (simp add: same_class_def)

lemma uf_ok_preserved:
  assumes "uf_ok u" "uf_rank u' = uf_rank u" "map fst (uf_parent u') = map fst (uf_parent u)"
    "\<forall>y r'. uf_root (map_of (uf_parent u')) y r' \<longleftrightarrow> uf_root (map_of (uf_parent u)) y r'"
  shows "uf_ok u'"
  using assms by (simp add: uf_ok_iff)

lemma uf_same_set_result:
  assumes ok: "uf_ok u" and x: "x \<in> set (map fst (uf_parent u))"
    and y: "y \<in> set (map fst (uf_parent u))"
  shows "\<exists>u'. uf_same_set u x y = Some (Inr (same_class u x y), u') \<and> uf_ok u' \<and>
           uf_rank u' = uf_rank u \<and> map fst (uf_parent u') = map fst (uf_parent u) \<and>
           (\<forall>z r. uf_root (map_of (uf_parent u')) z r \<longleftrightarrow> uf_root (map_of (uf_parent u)) z r)"
proof -
  from ok x y obtain rx ry where rx: "uf_root (map_of (uf_parent u)) x rx"
    and ry: "uf_root (map_of (uf_parent u)) y ry"
    unfolding uf_ok_iff by blast
  from uf_find_root [OF rx] obtain u1 where u1: "uf_find u x = Some (Inr rx, u1)"
    "uf_rank u1 = uf_rank u" "map fst (uf_parent u1) = map fst (uf_parent u)"
    "\<forall>y r'. uf_root (map_of (uf_parent u1)) y r' \<longleftrightarrow> uf_root (map_of (uf_parent u)) y r'"
    by blast
  from ry u1(4) have "uf_root (map_of (uf_parent u1)) y ry" by simp
  from uf_find_root [OF this] obtain u2 where u2: "uf_find u1 y = Some (Inr ry, u2)"
    "uf_rank u2 = uf_rank u1" "map fst (uf_parent u2) = map fst (uf_parent u1)"
    "\<forall>y r'. uf_root (map_of (uf_parent u2)) y r' \<longleftrightarrow> uf_root (map_of (uf_parent u1)) y r'"
    by blast
  have r: "uf_same_set u x y = Some (Inr (rx = ry), u2)"
    by (simp add: uf_same_set_def u1(1) u2(1))
  have p: "\<forall>z r. uf_root (map_of (uf_parent u2)) z r \<longleftrightarrow> uf_root (map_of (uf_parent u)) z r"
    using u1(4) u2(4) by simp
  have rk: "uf_rank u2 = uf_rank u" using u1(2) u2(2) by (rule trans [rotated])
  have ks: "map fst (uf_parent u2) = map fst (uf_parent u)" using u1(3) u2(3) by (rule trans [rotated])
  have ok2: "uf_ok u2" using ok rk ks p by (rule uf_ok_preserved)
  have "same_class u x y = (rx = ry)" using rx ry by (rule same_class_roots)
  with r have "uf_same_set u x y = Some (Inr (same_class u x y), u2)" by simp
  with ok2 rk ks p show ?thesis by blast
qed

lemma uf_union_result:
  assumes ok: "uf_ok u" and x: "x \<in> set (map fst (uf_parent u))"
    and y: "y \<in> set (map fst (uf_parent u))" and ns: "\<not> same_class u x y"
  shows "\<exists>u'. uf_union u x y = Some (Inr (), u') \<and> uf_ok u' \<and>
           map fst (uf_parent u') = map fst (uf_parent u) \<and>
           (\<forall>z z'. same_class u' z z' \<longleftrightarrow>
              same_class u z z' \<or> (same_class u z x \<and> same_class u z' y) \<or>
              (same_class u z y \<and> same_class u z' x))"
proof -
  from ok x y obtain rx ry where rx: "uf_root (map_of (uf_parent u)) x rx"
    and ry: "uf_root (map_of (uf_parent u)) y ry"
    unfolding uf_ok_iff by blast
  from uf_find_root [OF rx] obtain u1 where u1: "uf_find u x = Some (Inr rx, u1)"
    "uf_rank u1 = uf_rank u" "map fst (uf_parent u1) = map fst (uf_parent u)"
    "\<forall>y r'. uf_root (map_of (uf_parent u1)) y r' \<longleftrightarrow> uf_root (map_of (uf_parent u)) y r'"
    by blast
  from ry u1(4) have "uf_root (map_of (uf_parent u1)) y ry" by simp
  from uf_find_root [OF this] obtain u2 where u2: "uf_find u1 y = Some (Inr ry, u2)"
    "uf_rank u2 = uf_rank u1" "map fst (uf_parent u2) = map fst (uf_parent u1)"
    "\<forall>y r'. uf_root (map_of (uf_parent u2)) y r' \<longleftrightarrow> uf_root (map_of (uf_parent u1)) y r'"
    by blast
  let ?pm = "map_of (uf_parent u2)"
  have p: "\<forall>z r. uf_root ?pm z r \<longleftrightarrow> uf_root (map_of (uf_parent u)) z r"
    using u1(4) u2(4) by simp
  have rk2: "uf_rank u2 = uf_rank u" using u1(2) u2(2) by (rule trans [rotated])
  have keys: "map fst (uf_parent u2) = map fst (uf_parent u)" using u1(3) u2(3) by (rule trans [rotated])
  have ok2: "uf_ok u2" using ok rk2 keys p by (rule uf_ok_preserved)
  have sc: "same_class u2 z z' = same_class u z z'" for z z'
    using p by (rule same_class_preserved)
  have rx2: "uf_root ?pm x rx" and ry2: "uf_root ?pm y ry" using rx ry p by simp_all
  have ne: "rx \<noteq> ry" using ns same_class_roots [OF rx ry] by simp
  have rtx: "?pm rx = Some rx" and rty: "?pm ry = Some ry"
    using rx2 ry2 by (auto dest: uf_root_is_root)
  have rkr: "map_of (uf_rank u2) r \<noteq> None" if "uf_root ?pm z r" for z r
  proof -
    from that have "z \<in> set (map fst (uf_parent u2))" by (rule uf_root_key)
    with ok2 obtain r' where "uf_root ?pm z r'" "map_of (uf_rank u2) r' \<noteq> None"
      unfolding uf_ok_iff by blast
    with that show ?thesis using uf_root_functional by blast
  qed
  have rkx: "map_of (uf_rank u2) rx \<noteq> None" and rky: "map_of (uf_rank u2) ry \<noteq> None"
    using rkr [OF rx2] rkr [OF ry2] by simp_all
  then obtain kx ky where k: "map_of (uf_rank u2) rx = Some kx" "map_of (uf_rank u2) ry = Some ky"
    by auto
  \<comment> \<open>the link that \<open>union\<close> installs\<close>
  define a where "a = (if kx < ky then rx else ry)"
  define b where "b = (if kx < ky then ry else rx)"
  define rk where "rk = (if kx = ky then AList.update rx (kx + 1) (uf_rank u2) else uf_rank u2)"
  let ?u3 = "u2\<lparr>uf_parent := AList.update a b (uf_parent u2), uf_rank := rk\<rparr>"
  have un: "uf_union u x y = Some (Inr (), ?u3)"
    using ne k by (auto simp: uf_union_def u1(1) u2(1) a_def b_def rk_def)
  have ab: "a \<noteq> b" "?pm a = Some a" "?pm b = Some b" "{a, b} = {rx, ry}"
    using ne rtx rty by (auto simp: a_def b_def)
  have pm3: "map_of (uf_parent ?u3) = ?pm(a \<mapsto> b)" by (simp add: update_conv')
  have keys3: "map fst (uf_parent ?u3) = map fst (uf_parent u)"
    using keys ab(2) by (simp add: update_keys_same)
  have link: "uf_root (map_of (uf_parent ?u3)) z (if r = a then b else r)"
    if "uf_root ?pm z r" for z r
    unfolding pm3 using ab(2,3,1) that by (rule uf_root_link)
  have rk_dom: "map_of rk r \<noteq> None" if "map_of (uf_rank u2) r \<noteq> None" for r
    using that by (simp add: rk_def update_conv')
  have ok3: "uf_ok ?u3"
    unfolding uf_ok_iff
  proof
    fix z assume "z \<in> set (map fst (uf_parent ?u3))"
    then have "z \<in> set (map fst (uf_parent u2))" by (simp only: keys3 keys)
    with ok2 obtain r where r: "uf_root ?pm z r" "map_of (uf_rank u2) r \<noteq> None"
      unfolding uf_ok_iff by blast
    have "map_of (uf_rank ?u3) (if r = a then b else r) \<noteq> None"
      using r(2) rkx rky ab(4) rk_dom by (cases "r = a") (auto simp: doubleton_eq_iff)
    with link [OF r(1)]
    show "\<exists>r. uf_root (map_of (uf_parent ?u3)) z r \<and> map_of (uf_rank ?u3) r \<noteq> None"
      by blast
  qed
  have cls: "same_class ?u3 z z' \<longleftrightarrow>
      same_class u z z' \<or> (same_class u z x \<and> same_class u z' y) \<or>
      (same_class u z y \<and> same_class u z' x)" for z z'
  proof (cases "z \<in> set (map fst (uf_parent u2)) \<and> z' \<in> set (map fst (uf_parent u2))")
    case True
    with ok2 obtain r r' where r: "uf_root ?pm z r" "uf_root ?pm z' r'"
      unfolding uf_ok_iff by blast
    have 1: "same_class ?u3 z z' \<longleftrightarrow> (if r = a then b else r) = (if r' = a then b else r')"
      using same_class_roots [OF link [OF r(1)] link [OF r(2)]] .
    have 2: "same_class u2 z z' \<longleftrightarrow> r = r'" "same_class u2 z x \<longleftrightarrow> r = rx"
      "same_class u2 z y \<longleftrightarrow> r = ry" "same_class u2 z' x \<longleftrightarrow> r' = rx"
      "same_class u2 z' y \<longleftrightarrow> r' = ry"
      using same_class_roots r rx2 ry2 by blast+
    show ?thesis unfolding 1 sc [symmetric] 2 using ab(1,4)
      by (auto simp: doubleton_eq_iff)
  next
    case False
    then have "\<not> same_class ?u3 z z'" "\<not> same_class u z z'"
      "\<not> (same_class u z x \<and> same_class u z' y)" "\<not> (same_class u z y \<and> same_class u z' x)"
      using uf_root_key [of "uf_parent ?u3"] uf_root_key [of "uf_parent u"] keys keys3
      unfolding same_class_def by metis+
    then show ?thesis by simp
  qed
  from un ok3 keys3 cls show ?thesis by blast
qed

lemma map_of_fold_update:
  "map_of (fold (\<lambda>elem d. AList.update elem (f elem) d) es d0) =
     (\<lambda>x. if x \<in> set es then Some (f x) else map_of d0 x)"
  by (induction es arbitrary: d0) (auto simp: update_conv' fun_eq_iff)

lemma keys_fold_update:
  "set (map fst (fold (\<lambda>elem d. AList.update elem (f elem) d) es d0)) =
     set es \<union> set (map fst d0)"
  by (induction es arbitrary: d0) (simp_all add: dom_update Un_assoc)

lemma uf_init_ok:
  "uf_ok (uf_init es) \<and> set (map fst (uf_parent (uf_init es))) = set es"
proof -
  have pm: "map_of (uf_parent (uf_init es)) = (\<lambda>x. if x \<in> set es then Some x else None)"
    unfolding uf_init_def by (auto simp: map_of_fold_update [where f = "\<lambda>x. x"] fun_eq_iff)
  have rk: "map_of (uf_rank (uf_init es)) = (\<lambda>x. if x \<in> set es then Some 0 else None)"
    unfolding uf_init_def by (auto simp: map_of_fold_update [where f = "\<lambda>x. 0"] fun_eq_iff)
  have ks: "set (map fst (uf_parent (uf_init es))) = set es"
    unfolding uf_init_def using keys_fold_update [where f = "\<lambda>x. x" and ?d0.0 = "[]"] by simp
  have "\<exists>r. uf_root (map_of (uf_parent (uf_init es))) x r \<and> map_of (uf_rank (uf_init es)) r \<noteq> None"
    if "x \<in> set es" for x
    using that by (intro exI [of _ x]) (simp add: pm rk root_self)
  with ks show ?thesis unfolding uf_ok_iff by blast
qed


subsection \<open>Equivalence detector: the pairs and the test of one pair\<close>

lemma check_pair_result:
  assumes ok: "uf_ok uf" and x: "v1 \<in> set (map fst (uf_parent uf))"
    and y: "v2 \<in> set (map fst (uf_parent uf))"
  shows "\<exists>uf'. uf_ok uf' \<and> map fst (uf_parent uf') = map fst (uf_parent uf) \<and>
     (if same_class uf v1 v2
      then check_pair sat (t, uf, db) v1 v2 = Some (Inr (), (t, uf', db)) \<and>
           (\<forall>z z'. same_class uf' z z' = same_class uf z z')
      else let a = counter t + 1;
               db' = db @ pair_clauses a v1 v2 (dep_list_of t v1) (dep_list_of t v2);
               unsat = (sat_model sat db' [a, output_gate_id t] = None)
           in check_pair sat (t, uf, db) v1 v2 = Some (Inr (), (t\<lparr>counter := a\<rparr>, uf', db')) \<and>
              (\<forall>z z'. same_class uf' z z' \<longleftrightarrow>
                 same_class uf z z' \<or>
                 unsat \<and> (same_class uf z v1 \<and> same_class uf z' v2 \<or>
                          same_class uf z v2 \<and> same_class uf z' v1)))"
proof -
  from uf_same_set_result [OF ok x y] obtain u1 where
    u1: "uf_same_set uf v1 v2 = Some (Inr (same_class uf v1 v2), u1)" "uf_ok u1"
      "map fst (uf_parent u1) = map fst (uf_parent uf)"
      "\<forall>z r. uf_root (map_of (uf_parent u1)) z r \<longleftrightarrow> uf_root (map_of (uf_parent uf)) z r"
    by blast
  have sc: "same_class u1 z z' = same_class uf z z'" for z z'
    using u1(4) by (rule same_class_preserved)
  show ?thesis
  proof (cases "same_class uf v1 v2")
    case True
    then have "check_pair sat (t, uf, db) v1 v2 = Some (Inr (), (t, u1, db))"
      using u1(1) by (simp add: check_pair_def)
    with True u1(2,3) sc show ?thesis by (intro exI [of _ u1]) simp
  next
    case False
    define a where "a = counter t + 1"
    define db' where "db' = db @ pair_clauses a v1 v2 (dep_list_of t v1) (dep_list_of t v2)"
    show ?thesis
    proof (cases "sat_model sat db' [a, output_gate_id t]")
      case (Some m)
      then have "check_pair sat (t, uf, db) v1 v2 = Some (Inr (), (t\<lparr>counter := a\<rparr>, u1, db'))"
        using u1(1) False
        by (simp add: check_pair_def counter_increase_def Let_def a_def db'_def)
      with False Some u1(2,3) sc show ?thesis
        by (intro exI [of _ u1]) (simp add: Let_def a_def db'_def)
    next
      case None
      have x1: "v1 \<in> set (map fst (uf_parent u1))" and y1: "v2 \<in> set (map fst (uf_parent u1))"
        using x y by (simp_all only: u1(3))
      have ns: "\<not> same_class u1 v1 v2" using False by (simp only: sc not_False_eq_True)
      from uf_union_result [OF u1(2) x1 y1 ns] obtain u2 where
        u2: "uf_union u1 v1 v2 = Some (Inr (), u2)" "uf_ok u2"
          "map fst (uf_parent u2) = map fst (uf_parent u1)"
          "\<forall>z z'. same_class u2 z z' \<longleftrightarrow>
              same_class u1 z z' \<or> (same_class u1 z v1 \<and> same_class u1 z' v2) \<or>
              (same_class u1 z v2 \<and> same_class u1 z' v1)"
        by blast
      have "check_pair sat (t, uf, db) v1 v2 = Some (Inr (), (t\<lparr>counter := a\<rparr>, u2, db'))"
        using u1(1) False None u2(1)
        by (simp add: check_pair_def counter_increase_def Let_def a_def db'_def)
      moreover have "map fst (uf_parent u2) = map fst (uf_parent uf)"
        using u2(3) u1(3) by (rule trans)
      moreover have "\<forall>z z'. same_class u2 z z' \<longleftrightarrow>
              same_class uf z z' \<or> (same_class uf z v1 \<and> same_class uf z' v2 \<or>
              same_class uf z v2 \<and> same_class uf z' v1)"
        using u2(4) unfolding sc by blast
      ultimately show ?thesis using False None u2(2)
        by (intro exI [of _ u2]) (simp add: Let_def a_def db'_def)
    qed
  qed
qed

lemma set_update_cases:
  "(k', g) \<in> set (AList.update k v al) \<Longrightarrow> (k', g) = (k, v) \<or> (k', g) \<in> set al"
  by (induction al) (auto split: if_splits)

lemma by_dep_count_step:
  assumes inv: "\<forall>(k, grp)\<in>set d. \<forall>v\<in>set grp. v \<in> E \<and> f v = k" and e: "e \<in> E"
  shows "\<forall>(k, grp)\<in>set
           (let dep_count = f e;
                d = (if map_of d dep_count = None then AList.update dep_count [] d else d);
                grp = (case map_of d dep_count of None \<Rightarrow> [] | Some g \<Rightarrow> g)
            in AList.update dep_count (grp @ [e]) d).
         \<forall>v\<in>set grp. v \<in> E \<and> f v = k"
proof (cases "map_of d (f e)")
  case None
  let ?X = "AList.update (f e) [e] (AList.update (f e) [] d)"
  have eq: "(let dep_count = f e;
                d = (if map_of d dep_count = None then AList.update dep_count [] d else d);
                grp = (case map_of d dep_count of None \<Rightarrow> [] | Some g \<Rightarrow> g)
            in AList.update dep_count (grp @ [e]) d) = ?X"
    by (simp add: None Let_def update_conv')
  have "v \<in> E \<and> f v = k" if a: "(k, grp) \<in> set ?X" "v \<in> set grp" for k grp v
  proof -
    from set_update_cases [OF a(1)]
    have "(k, grp) = (f e, [e]) \<or> (k, grp) \<in> set (AList.update (f e) [] d)" .
    then have "(k, grp) = (f e, [e]) \<or> (k, grp) = (f e, []) \<or> (k, grp) \<in> set d"
      using set_update_cases [of k grp "f e" "[]" d] by blast
    with a(2) inv e show ?thesis by auto
  qed
  then show ?thesis unfolding eq by blast
next
  case (Some g)
  then have g: "(f e, g) \<in> set d" by (rule map_of_SomeD)
  let ?X = "AList.update (f e) (g @ [e]) d"
  have eq: "(let dep_count = f e;
                d = (if map_of d dep_count = None then AList.update dep_count [] d else d);
                grp = (case map_of d dep_count of None \<Rightarrow> [] | Some g \<Rightarrow> g)
            in AList.update dep_count (grp @ [e]) d) = ?X"
    by (simp add: Some Let_def)
  have "v \<in> E \<and> f v = k" if a: "(k, grp) \<in> set ?X" "v \<in> set grp" for k grp v
  proof -
    from set_update_cases [OF a(1)] have "(k, grp) = (f e, g @ [e]) \<or> (k, grp) \<in> set d" .
    with a(2) inv e g show ?thesis by fastforce
  qed
  then show ?thesis unfolding eq by blast
qed

lemma by_dep_count_fold:
  assumes "\<forall>(k, grp)\<in>set d. \<forall>v\<in>set grp. v \<in> E \<and> f v = k" "set es \<subseteq> E"
  shows "\<forall>(k, grp)\<in>set (fold (\<lambda>exist_id d.
            let dep_count = f exist_id;
                d = (if map_of d dep_count = None then AList.update dep_count [] d else d);
                grp = (case map_of d dep_count of None \<Rightarrow> [] | Some g \<Rightarrow> g)
            in AList.update dep_count (grp @ [exist_id]) d) es d).
         \<forall>v\<in>set grp. v \<in> E \<and> f v = k"
  using assms
proof (induction es arbitrary: d)
  case Nil
  then show ?case by simp
next
  case (Cons e es)
  from Cons.prems have e: "e \<in> E" and es: "set es \<subseteq> E" by simp_all
  note st = by_dep_count_step [OF Cons.prems(1) e]
  show ?case unfolding fold_simps by (rule Cons.IH [OF st es])
qed

lemma by_dep_count_groups:
  assumes "(k, grp) \<in> set (by_dep_count s)" "v \<in> set grp"
  shows "v \<in> set (existential_var_ids s) \<and> length (dep_list_of s v) = k"
proof -
  have "\<forall>(k, grp)\<in>set (by_dep_count s). \<forall>v\<in>set grp.
          v \<in> set (existential_var_ids s) \<and> length (dep_list_of s v) = k"
    unfolding by_dep_count_def
    by (rule by_dep_count_fold [where f = "\<lambda>v. length (dep_list_of s v)"]) simp_all
  with assms show ?thesis by blast
qed

lemma pairs_of_set: "(a, b) \<in> set (pairs_of xs) \<Longrightarrow> a \<in> set xs \<and> b \<in> set xs"
  by (induction xs) auto

lemma candidate_pairs_equal_length:
  assumes "(v1, v2) \<in> set (candidate_pairs s)"
  shows "v1 \<in> set (existential_var_ids s) \<and> v2 \<in> set (existential_var_ids s) \<and>
         length (dep_list_of s v1) = length (dep_list_of s v2)"
proof -
  from assms obtain k grp where g: "(k, grp) \<in> set (by_dep_count s)" "(v1, v2) \<in> set (pairs_of grp)"
    by (auto simp: candidate_pairs_def)
  from pairs_of_set [OF g(2)] have "v1 \<in> set grp" "v2 \<in> set grp" by simp_all
  with by_dep_count_groups [OF g(1)] show ?thesis by simp
qed

lemma check_pairs_append:
  "check_pairs sat (xs @ ys) st =
     (case check_pairs sat xs st of
        None \<Rightarrow> None
      | Some (Inl err, st) \<Rightarrow> Some (Inl err, st)
      | Some (Inr _, st) \<Rightarrow> check_pairs sat ys st)"
  by (induction xs arbitrary: st) (auto split: option.splits sum.splits prod.splits)

lemma pairs_inner_check_pairs:
  "pairs_inner sat v vs st = check_pairs sat (map (Pair v) vs) st"
  by (induction vs arbitrary: st) (auto split: option.splits sum.splits prod.splits)

lemma pairs_outer_check_pairs:
  "pairs_outer sat vs st = check_pairs sat (pairs_of vs) st"
  by (induction vs arbitrary: st)
    (auto simp: check_pairs_append pairs_inner_check_pairs split: option.splits sum.splits prod.splits)

lemma groups_loop_check_pairs:
  "groups_loop sat gs st = check_pairs sat (concat (map (\<lambda>(dep_count, grp). pairs_of grp) gs)) st"
  by (induction gs arbitrary: st)
    (auto simp: check_pairs_append pairs_outer_check_pairs split: option.splits sum.splits prod.splits)

lemma detect_as_check_pairs:
  "detect_equivalent_existentials sat s =
    (case check_pairs sat (candidate_pairs s) (s, uf_init (existential_var_ids s), matrix s) of
       None \<Rightarrow> None
     | Some (Inl err, (s', uf, db)) \<Rightarrow> Some (Inl err, s')
     | Some (Inr _, (s', uf, db)) \<Rightarrow>
         (case uf_get_classes uf of
            None \<Rightarrow> None
          | Some (Inl err, uf) \<Rightarrow> Some (Inl err, s')
          | Some (Inr equivalence_classes, uf) \<Rightarrow> Some (Inr equivalence_classes, s')))"
  by (simp add: detect_equivalent_existentials_def groups_loop_check_pairs candidate_pairs_def)

lemma check_pairs_result:
  assumes "uf_ok uf" "\<forall>(v1, v2)\<in>set ps. v1 \<in> set (map fst (uf_parent uf)) \<and>
      v2 \<in> set (map fst (uf_parent uf))"
  shows "\<exists>c uf' db'. check_pairs sat ps (t, uf, db) = Some (Inr (), (t\<lparr>counter := c\<rparr>, uf', db')) \<and>
           counter t \<le> c \<and> uf_ok uf' \<and> map fst (uf_parent uf') = map fst (uf_parent uf)"
  using assms
proof (induction ps arbitrary: t uf db)
  case Nil
  have "check_pairs sat [] (t, uf, db) = Some (Inr (), (t\<lparr>counter := counter t\<rparr>, uf, db))"
    by simp
  with Nil show ?case by blast
next
  case (Cons p ps)
  obtain v1 v2 where p: "p = (v1, v2)" by (cases p)
  from Cons.prems p have k: "v1 \<in> set (map fst (uf_parent uf))" "v2 \<in> set (map fst (uf_parent uf))"
    by simp_all
  from check_pair_result [OF Cons.prems(1) k, of sat t db]
  obtain uf1 t1 db1 where 1: "uf_ok uf1" "map fst (uf_parent uf1) = map fst (uf_parent uf)"
    "check_pair sat (t, uf, db) v1 v2 = Some (Inr (), (t1, uf1, db1))"
    "t1 = t \<or> t1 = t\<lparr>counter := counter t + 1\<rparr>"
    by (auto simp: Let_def split: if_splits)
  have "\<forall>(v1, v2)\<in>set ps. v1 \<in> set (map fst (uf_parent uf1)) \<and>
      v2 \<in> set (map fst (uf_parent uf1))"
    using Cons.prems(2) unfolding 1(2) by simp
  from Cons.IH [OF 1(1) this, of t1 db1]
  obtain c uf' db' where 2: "check_pairs sat ps (t1, uf1, db1) = Some (Inr (), (t1\<lparr>counter := c\<rparr>, uf', db'))"
    "counter t1 \<le> c" "uf_ok uf'" "map fst (uf_parent uf') = map fst (uf_parent uf1)"
    by blast
  have 3: "check_pairs sat (p # ps) (t, uf, db) = Some (Inr (), (t1\<lparr>counter := c\<rparr>, uf', db'))"
    using 1(3) 2(1) by (simp add: p)
  have 4: "t1\<lparr>counter := c\<rparr> = t\<lparr>counter := c\<rparr>" "counter t \<le> c"
    using 1(4) 2(2) by auto
  have 5: "map fst (uf_parent uf') = map fst (uf_parent uf)" using 2(4) 1(2) by (rule trans)
  from 3 4 5 2(3) show ?case by (intro exI [of _ c] exI [of _ uf'] exI [of _ db']) simp
qed

lemma ex5_init_state:
  "dqbf_solver_init [(''u'', 1), (''e1'', 2), (''e2'', 3), (''e3'', 4), (''g'', 5)]
     [(''e1'', [''u'']), (''e2'', [''u'']), (''e3'', [])]
     [[-5, -2, 3], [-5, 2, -3]] [''u''] 5 None [''e1'', ''e2'', ''e3''] = Inr ex5_state"
  by (simp add: ex5_state_def dqbf_solver_init_def initial_max_id_def
      init_model_def counter_increase_def cex_add_clause_def)




subsection \<open>Equivalence detector: frame\<close>

lemma uf_classes_loop_total:
  assumes "\<forall>x\<in>set es. \<exists>r. uf_root (map_of (uf_parent u)) x r"
  shows "\<exists>classes u'. uf_classes_loop u es acc = Some (Inr classes, u')"
  using assms
proof (induction es arbitrary: u acc)
  case Nil
  then show ?case by simp
next
  case (Cons e es)
  then obtain r where r: "uf_root (map_of (uf_parent u)) e r" by auto
  from uf_find_root [OF r] obtain u1 where u1: "uf_find u e = Some (Inr r, u1)"
    "\<forall>y r'. uf_root (map_of (uf_parent u1)) y r' \<longleftrightarrow> uf_root (map_of (uf_parent u)) y r'"
    by blast
  have "\<forall>x\<in>set es. \<exists>r. uf_root (map_of (uf_parent u1)) x r"
    using Cons.prems u1(2) by simp
  from Cons.IH [OF this] show ?case by (simp add: u1(1) Let_def)
qed

lemma uf_get_classes_total:
  assumes "uf_ok u"
  shows "\<exists>classes u'. uf_get_classes u = Some (Inr classes, u')"
  unfolding uf_get_classes_def
  using assms by (intro uf_classes_loop_total) (auto simp: uf_ok_iff)

lemma detect_total_frame:
  "\<exists>classes c. detect_equivalent_existentials sat s = Some (Inr classes, s\<lparr>counter := c\<rparr>) \<and>
     counter s \<le> c"
proof -
  let ?uf = "uf_init (existential_var_ids s)"
  have ok: "uf_ok ?uf" and ks: "set (map fst (uf_parent ?uf)) = set (existential_var_ids s)"
    using uf_init_ok [of "existential_var_ids s"] by simp_all
  have "\<forall>(v1, v2)\<in>set (candidate_pairs s). v1 \<in> set (map fst (uf_parent ?uf)) \<and>
      v2 \<in> set (map fst (uf_parent ?uf))"
    unfolding ks using candidate_pairs_equal_length by blast
  from check_pairs_result [OF ok this, of sat s "matrix s"]
  obtain c uf' db' where 1:
    "check_pairs sat (candidate_pairs s) (s, ?uf, matrix s) = Some (Inr (), (s\<lparr>counter := c\<rparr>, uf', db'))"
    "counter s \<le> c" "uf_ok uf'"
    by blast
  from uf_get_classes_total [OF 1(3)] obtain classes u' where
    2: "uf_get_classes uf' = Some (Inr classes, u')" by blast
  have "detect_equivalent_existentials sat s = Some (Inr classes, s\<lparr>counter := c\<rparr>)"
    unfolding detect_as_check_pairs by (simp add: 1(1) 2)
  with 1(2) show ?thesis by blast
qed

text \<open>
  C10. \<^verbatim>\<open>detect_equivalent_existentials\<close> returns the classes and leaves the object as it
  was except for the counter, which does not decrease: the clause databases of the
  counterexample solver and of the expansion solver, the three handle dicts, the permanent
  assumptions, the expansion registry and the matrix are unchanged (the clauses of the
  pair tests go to the local solver, which is not part of the object).
\<close>

theorem detect_equivalent_existentials_frame:
  "\<exists>classes s'. detect_equivalent_existentials sat s = Some (Inr classes, s') \<and>
     s' = s\<lparr>counter := counter s'\<rparr> \<and> counter s \<le> counter s' \<and>
     counterexample_solver s' = counterexample_solver s \<and>
     expansion_solver s' = expansion_solver s \<and>
     value_vars s' = value_vars s \<and> no_rule_fired_vars s' = no_rule_fired_vars s \<and>
     rule_fire_vars s' = rule_fire_vars s \<and>
     permanent_assumptions s' = permanent_assumptions s \<and>
     expansion_vars s' = expansion_vars s \<and> expansion_vars_set s' = expansion_vars_set s \<and>
     expansion_variable_assignment s' = expansion_variable_assignment s \<and>
     matrix s' = matrix s"
proof -
  from detect_total_frame [of sat s] obtain classes c where
    "detect_equivalent_existentials sat s = Some (Inr classes, s\<lparr>counter := c\<rparr>)" "counter s \<le> c"
    by blast
  then show ?thesis by (intro exI [of _ classes] exI [of _ "s\<lparr>counter := c\<rparr>"]) simp
qed


end
